theory Spec2Isabelle
  imports Main
begin

section \<open>Data model\<close>

text \<open>
  The status codes returned by the functions of \<^verbatim>\<open>pipeline_factory.cpp\<close>.

  Modelled from the spec: the enumeration \<^verbatim>\<open>StatusCode\<close> is declared in \<^verbatim>\<open>status.hpp\<close>,
  which is not among the sources. The members are the ones the source returns, followed
  by the ones only the specification names (the lookup errors of the manager and
  \<^verbatim>\<open>PIPELINE_MISSING_DEPENDENCY\<close>).
\<close>

datatype StatusCode =
    OK
  | MODEL_NAME_MISSING
  | MODEL_MISSING
  | FORBIDDEN_MODEL_DYNAMIC_PARAMETER
  | PIPELINE_DEFINITION_MISSING_DEPENDENCY_MAPPING
  | INVALID_MISSING_OUTPUT
  | INVALID_MISSING_INPUT
  | PIPELINE_CYCLE_FOUND
  | PIPELINE_CONTAINS_UNCONNECTED_NODES
  | PIPELINE_MISSING_ENTRY_OR_EXIT
  | PIPELINE_NODE_NAME_DUPLICATE
  | PIPELINE_MULTIPLE_ENTRY_NODES
  | PIPELINE_MULTIPLE_EXIT_NODES
  | PIPELINE_DEFINITION_ALREADY_EXIST
  | PIPELINE_DEFINITION_NAME_MISSING
  | PIPELINE_NODE_WRONG_KIND_CONFIGURATION
  | MODEL_VERSION_MISSING
  | MODEL_VERSION_NOT_LOADED_YET
  | MODEL_VERSION_NOT_LOADED_ANYMORE
  | PIPELINE_MISSING_DEPENDENCY

datatype NodeKind = ENTRY | DL | EXIT

datatype Mode = FIXED | AUTO

text \<open>\<^verbatim>\<open>model_version_t\<close>: version numbers; 0 stands for "the default version".\<close>

type_synonym model_version_t = nat

text \<open>
  The parts of \<^verbatim>\<open>ModelConfig\<close> and \<^verbatim>\<open>ModelInstance\<close> that \<^verbatim>\<open>validateNode\<close> reads:
  the batching mode, the shape mode of every configured shape, and the input and output
  tensor maps (\<^verbatim>\<open>tensor_map_t\<close>, keyed by tensor name).

  Modelled from the spec: \<^verbatim>\<open>modelinstance.hpp\<close> and \<^verbatim>\<open>modelconfig.hpp\<close> are not among the
  sources; the fields follow section 3 of the specification and the accessors the source
  calls (\<^verbatim>\<open>getBatchingMode\<close>, \<^verbatim>\<open>getShapes\<close>, \<^verbatim>\<open>getInputsInfo\<close>, \<^verbatim>\<open>getOutputsInfo\<close>).
\<close>

record ShapeInfo =
  shapeMode :: Mode
  shape :: "nat list"

record ModelConfig =
  batchingMode :: Mode
  shapes :: "(string \<times> ShapeInfo) list"

record TensorInfo =
  precision :: string
  dims :: "nat list"

type_synonym tensor_map_t = "(string \<times> TensorInfo) list"

datatype ModelVersionState =
  BEGIN | LOADING | AVAILABLE | UNLOADING | END | LOADING_FAILED

record ModelInstance =
  instanceName :: string
  version :: model_version_t
  status :: ModelVersionState
  config :: ModelConfig
  inputsInfo :: tensor_map_t
  outputsInfo :: tensor_map_t

text \<open>
  \<^verbatim>\<open>NodeInfo\<close>, as \<^verbatim>\<open>PipelineDefinition::create\<close> and \<^verbatim>\<open>validateNode\<close> read it:
  \<^verbatim>\<open>modelVersion\<close> is a \<^verbatim>\<open>std::optional\<close>, \<^verbatim>\<open>outputNameAliases\<close> a map from alias to
  real output name.
\<close>

record NodeInfo =
  kind :: NodeKind
  nodeName :: string
  modelName :: string
  modelVersion :: "model_version_t option"
  outputNameAliases :: "string \<rightharpoonup> string"

text \<open>
  \<^verbatim>\<open>pipeline_connections_t\<close>: for every dependant node name, the nodes it depends on, each
  with its list of tensor bindings \<open>(source output alias, input name)\<close>. The two levels
  are unordered maps in the source; they are association lists here, read with
  \<open>map_of\<close> at the outer level and traversed in list order at the inner level, so that
  a statement about all lists covers every iteration order.
\<close>

type_synonym InputPairs = "(string \<times> string) list"

type_synonym pipeline_connections_t = "(string \<times> (string \<times> InputPairs) list) list"

record PipelineDefinition =
  pipelineName :: string
  nodeInfos :: "NodeInfo list"
  connections :: pipeline_connections_t

text \<open>
  \<^verbatim>\<open>connections[name]\<close>: the entry of a dependant node, empty when the key is absent
  (\<^verbatim>\<open>operator[]\<close> then inserts an empty entry, which no later read distinguishes from
  an absent one).
\<close>

definition connectionsOf :: "PipelineDefinition \<Rightarrow> string \<Rightarrow> (string \<times> InputPairs) list" where
  "connectionsOf d n = (case map_of (connections d) n of None \<Rightarrow> [] | Some c \<Rightarrow> c)"

text \<open>
  \<^verbatim>\<open>getModelInstance(manager, modelName, version, instance, guard)\<close> is declared in
  \<^verbatim>\<open>prediction_service_utils.hpp\<close>, which is not among the sources. The validation
  functions take it as a parameter: the lookup of a manager, returning the failing status
  or the resolved instance.
\<close>

type_synonym lookup_t = "string \<Rightarrow> model_version_t \<Rightarrow> StatusCode + ModelInstance"

section \<open>PipelineDefinition::validateNode\<close>

text \<open>\<^verbatim>\<open>modelVersion.value_or(0)\<close>\<close>

definition value_or :: "'a option \<Rightarrow> 'a \<Rightarrow> 'a" where
  "value_or v d = (case v of None \<Rightarrow> d | Some x \<Rightarrow> x)"

text \<open>
  The loop over the bindings of one connection (\<^verbatim>\<open>for (auto alias : connection.second)\<close>).
  \<open>OK\<close> means that the loop ended without a \<^verbatim>\<open>return\<close>: by exhausting the bindings,
  or by the \<^verbatim>\<open>break\<close> taken when the dependant node is not a DL node.
\<close>

fun validateBindings ::
  "NodeInfo \<Rightarrow> tensor_map_t \<Rightarrow> NodeInfo \<Rightarrow> tensor_map_t \<Rightarrow> InputPairs \<Rightarrow> StatusCode" where
  "validateBindings node nodeInputs sourceNodeInfo sourceNodeOutputs [] = OK"
| "validateBindings node nodeInputs sourceNodeInfo sourceNodeOutputs ((aliasName, inputName) # rest) =
     (let dependencyOutputName =
            (case outputNameAliases sourceNodeInfo aliasName of
               Some realName \<Rightarrow> realName
             | None \<Rightarrow> aliasName)
      in if map_of sourceNodeOutputs dependencyOutputName = None then INVALID_MISSING_OUTPUT
         else if kind node \<noteq> DL then OK
         else if map_of nodeInputs inputName = None then INVALID_MISSING_INPUT
         else validateBindings node nodeInputs sourceNodeInfo sourceNodeOutputs rest)"

text \<open>The loop over the connections of the node (\<^verbatim>\<open>for (auto& connection : connections[node.nodeName])\<close>).\<close>

fun validateConnections ::
  "lookup_t \<Rightarrow> NodeInfo list \<Rightarrow> NodeInfo \<Rightarrow> tensor_map_t \<Rightarrow> (string \<times> InputPairs) list \<Rightarrow> StatusCode" where
  "validateConnections getModelInstance infos node nodeInputs [] = OK"
| "validateConnections getModelInstance infos node nodeInputs ((sourceNodeName, pairs) # rest) =
     (case find (\<lambda>nodeInfo. nodeName nodeInfo = sourceNodeName) infos of
        None \<Rightarrow> MODEL_NAME_MISSING
      | Some sourceNodeInfo \<Rightarrow>
          if kind sourceNodeInfo = DL then
            (case getModelInstance (modelName sourceNodeInfo) 0 of
               Inl err \<Rightarrow> MODEL_MISSING
             | Inr sourceNodeModelInstance \<Rightarrow>
                 if length pairs = 0 then PIPELINE_DEFINITION_MISSING_DEPENDENCY_MAPPING
                 else
                   (let result = validateBindings node nodeInputs sourceNodeInfo
                                   (outputsInfo sourceNodeModelInstance) pairs
                    in if result \<noteq> OK then result
                       else validateConnections getModelInstance infos node nodeInputs rest))
          else validateConnections getModelInstance infos node nodeInputs rest)"

definition validateNode :: "lookup_t \<Rightarrow> PipelineDefinition \<Rightarrow> NodeInfo \<Rightarrow> StatusCode" where
  "validateNode getModelInstance d node =
     (if kind node = DL then
        (case getModelInstance (modelName node) (value_or (modelVersion node) 0) of
           Inl err \<Rightarrow> MODEL_NAME_MISSING
         | Inr nodeModelInstance \<Rightarrow>
             if batchingMode (config nodeModelInstance) = AUTO
             then FORBIDDEN_MODEL_DYNAMIC_PARAMETER
             else if list_ex (\<lambda>s. shapeMode (snd s) = AUTO) (shapes (config nodeModelInstance))
             then FORBIDDEN_MODEL_DYNAMIC_PARAMETER
             else validateConnections getModelInstance (nodeInfos d) node
                    (inputsInfo nodeModelInstance) (connectionsOf d (nodeName node)))
      else validateConnections getModelInstance (nodeInfos d) node []
             (connectionsOf d (nodeName node)))"

text \<open>
  The value of the local \<^verbatim>\<open>nodeInputs\<close> of \<^verbatim>\<open>validateNode\<close> when the loop over the
  connections starts: the inputs of the node's own instance for a DL node that resolved,
  empty otherwise.
\<close>

definition nodeInputsOf :: "lookup_t \<Rightarrow> NodeInfo \<Rightarrow> tensor_map_t" where
  "nodeInputsOf lookup node =
     (if kind node = DL then
        (case lookup (modelName node) (value_or (modelVersion node) 0) of
           Inl err \<Rightarrow> []
         | Inr nodeModelInstance \<Rightarrow> inputsInfo nodeModelInstance)
      else [])"

section \<open>PipelineDefinition::validateNodes\<close>

text \<open>
  The loop over \<^verbatim>\<open>nodeInfos\<close> with its two flags, followed by the two checks after the
  loop (the empty list).
\<close>

fun validateNodesLoop ::
  "lookup_t \<Rightarrow> PipelineDefinition \<Rightarrow> bool \<Rightarrow> bool \<Rightarrow> NodeInfo list \<Rightarrow> StatusCode" where
  "validateNodesLoop getModelInstance d entryFound exitFound [] =
     (if \<not> entryFound then PIPELINE_MISSING_ENTRY_OR_EXIT
      else if \<not> exitFound then PIPELINE_MISSING_ENTRY_OR_EXIT
      else OK)"
| "validateNodesLoop getModelInstance d entryFound exitFound (node # rest) =
     (if length (filter (\<lambda>nodeInfo. nodeName nodeInfo = nodeName node) (nodeInfos d)) > 1
      then PIPELINE_NODE_NAME_DUPLICATE
      else
        (let result = validateNode getModelInstance d node
         in if result \<noteq> OK then result
            else if kind node = ENTRY \<and> entryFound then PIPELINE_MULTIPLE_ENTRY_NODES
            else if kind node = EXIT \<and> exitFound then PIPELINE_MULTIPLE_EXIT_NODES
            else validateNodesLoop getModelInstance d
                   (entryFound \<or> kind node = ENTRY) (exitFound \<or> kind node = EXIT) rest))"

definition validateNodes :: "lookup_t \<Rightarrow> PipelineDefinition \<Rightarrow> StatusCode" where
  "validateNodes getModelInstance d =
     validateNodesLoop getModelInstance d False False (nodeInfos d)"


section \<open>PipelineDefinition::validateForCycles\<close>

text \<open>
  The \<^verbatim>\<open>for\<close> loop over the nodes connected to \<^verbatim>\<open>nodeName\<close> (\<open>current\<close> here): it returns
  \<^verbatim>\<open>PIPELINE_CYCLE_FOUND\<close>, or leaves by \<^verbatim>\<open>break\<close> at the first node that is not yet
  visited, or runs to its end.
\<close>

datatype ScanResult = CycleFound | UnvisitedFound string | NoneLeft

fun scanConnected ::
  "string \<Rightarrow> string list \<Rightarrow> string list \<Rightarrow> (string \<times> InputPairs) list \<Rightarrow> ScanResult" where
  "scanConnected current visited parentNodes [] = NoneLeft"
| "scanConnected current visited parentNodes ((first, pairs) # rest) =
     (if current = first then CycleFound
      else if first \<notin> set visited then UnvisitedFound first
      else if first \<in> set parentNodes then CycleFound
      else scanConnected current visited parentNodes rest)"

text \<open>Every name that occurs as a dependency in the connections of the definition.\<close>

definition dependencyNames :: "PipelineDefinition \<Rightarrow> string set" where
  "dependencyNames d = set (concat (map (\<lambda>kv. map fst (snd kv)) (connections d)))"

text \<open>
  The \<^verbatim>\<open>while (anyUnvisitedLeft)\<close> loop. \<^verbatim>\<open>visited\<close> and \<^verbatim>\<open>parentNodes\<close> are vectors
  that grow at the back; \<^verbatim>\<open>parentNodes\<close> is also popped at the back.
\<close>

function cyclesLoop ::
  "PipelineDefinition \<Rightarrow> string list \<Rightarrow> string list \<Rightarrow> string \<Rightarrow> StatusCode" where
  "cyclesLoop d visited parentNodes current =
     (case scanConnected current visited parentNodes (connectionsOf d current) of
        CycleFound \<Rightarrow> PIPELINE_CYCLE_FOUND
      | UnvisitedFound first \<Rightarrow>
          cyclesLoop d (visited @ [first]) (parentNodes @ [current]) first
      | NoneLeft \<Rightarrow>
          if length parentNodes = 0 then
            (if length visited \<noteq> length (nodeInfos d)
             then PIPELINE_CONTAINS_UNCONNECTED_NODES
             else OK)
          else cyclesLoop d visited (butlast parentNodes) (last parentNodes))"
  by pat_completeness auto
termination
proof (relation "measures [\<lambda>(d, visited, parentNodes, current). card (dependencyNames d - set visited),
                            \<lambda>(d, visited, parentNodes, current). length parentNodes]")
  show "wf (measures [\<lambda>(d, visited, parentNodes, current). card (dependencyNames d - set visited),
                       \<lambda>(d, visited, parentNodes, current). length parentNodes])"
    by simp
next
  fix d :: PipelineDefinition and visited parentNodes :: "string list" and current x2 :: string
  assume "scanConnected current visited parentNodes (connectionsOf d current) = UnvisitedFound x2"
  moreover have "scanConnected current visited parentNodes xs = UnvisitedFound x2 \<Longrightarrow>
      x2 \<in> fst ` set xs \<and> x2 \<notin> set visited" for xs
    by (induction xs) (auto split: if_splits)
  ultimately have found: "x2 \<in> fst ` set (connectionsOf d current)" and fresh: "x2 \<notin> set visited"
    by blast+
  have in_deps: "x2 \<in> dependencyNames d"
  proof (cases "map_of (connections d) current")
    case None
    with found show ?thesis by (simp add: connectionsOf_def)
  next
    case (Some c)
    with found have "x2 \<in> set (map fst c)" by (simp add: connectionsOf_def)
    moreover from Some have "(current, c) \<in> set (connections d)" by (rule map_of_SomeD)
    ultimately show ?thesis
      unfolding dependencyNames_def by (auto intro!: bexI [of _ "(current, c)"])
  qed
  have fin: "finite (dependencyNames d - set visited)"
    by (simp add: dependencyNames_def)
  have eq: "dependencyNames d - set (visited @ [x2]) = (dependencyNames d - set visited) - {x2}"
    by auto
  have mem: "x2 \<in> dependencyNames d - set visited"
    using in_deps fresh by simp
  have "card (dependencyNames d - set (visited @ [x2])) < card (dependencyNames d - set visited)"
    unfolding eq by (rule card_Diff1_less [OF fin mem])
  then show "((d, visited @ [x2], parentNodes @ [current], x2), (d, visited, parentNodes, current))
        \<in> measures [\<lambda>(d, visited, parentNodes, current). card (dependencyNames d - set visited),
                      \<lambda>(d, visited, parentNodes, current). length parentNodes]"
    by simp
next
  fix d :: PipelineDefinition and visited parentNodes :: "string list" and current :: string
  assume "length parentNodes \<noteq> 0"
  then show "((d, visited, butlast parentNodes, last parentNodes), (d, visited, parentNodes, current))
        \<in> measures [\<lambda>(d, visited, parentNodes, current). card (dependencyNames d - set visited),
                      \<lambda>(d, visited, parentNodes, current). length parentNodes]"
    by simp
qed

declare cyclesLoop.simps [simp del]

definition validateForCycles :: "PipelineDefinition \<Rightarrow> StatusCode" where
  "validateForCycles d =
     (case find (\<lambda>nodeInfo. kind nodeInfo = EXIT) (nodeInfos d) of
        None \<Rightarrow> PIPELINE_MISSING_ENTRY_OR_EXIT
      | Some itr \<Rightarrow> cyclesLoop d [nodeName itr] [] (nodeName itr))"

text \<open>
  The graph that \<open>validateForCycles\<close> walks: an edge leads from a dependant node to each
  node it depends on (the transpose of the data flow).
\<close>

definition dependencyEdges :: "PipelineDefinition \<Rightarrow> (string \<times> string) set" where
  "dependencyEdges d = {(n, s). s \<in> fst ` set (connectionsOf d n)}"

text \<open>
  What the traversal from the node \<open>x\<close> decides, stated on the graph: a cycle that can be
  reached from \<open>x\<close>, else a number of reachable names that differs from the number of
  NodeInfos, else \<open>OK\<close>.
\<close>

definition cyclesSpec :: "PipelineDefinition \<Rightarrow> string \<Rightarrow> StatusCode" where
  "cyclesSpec d x =
     (if \<exists>n. (x, n) \<in> (dependencyEdges d)\<^sup>* \<and> (n, n) \<in> (dependencyEdges d)\<^sup>+
      then PIPELINE_CYCLE_FOUND
      else if card ((dependencyEdges d)\<^sup>* `` {x}) \<noteq> length (nodeInfos d)
      then PIPELINE_CONTAINS_UNCONNECTED_NODES
      else OK)"

text \<open>
  The invariant of the \<^verbatim>\<open>while\<close> loop. The active path is \<open>parentNodes @ [current]\<close>; it
  starts at \<open>x\<close> and follows edges. Every visited name is reachable from \<open>x\<close>. The visited
  names off the active path are finished: their successors are finished too and none of
  them lies on a cycle.
\<close>

definition cyclesInv ::
  "PipelineDefinition \<Rightarrow> string \<Rightarrow> string list \<Rightarrow> string list \<Rightarrow> string \<Rightarrow> bool" where
  "cyclesInv d x visited parentNodes current \<longleftrightarrow>
     distinct visited
     \<and> set parentNodes \<subseteq> set visited \<and> current \<in> set visited
     \<and> set visited \<subseteq> (dependencyEdges d)\<^sup>* `` {x}
     \<and> hd (parentNodes @ [current]) = x
     \<and> successively (\<lambda>a b. (a, b) \<in> dependencyEdges d) (parentNodes @ [current])
     \<and> dependencyEdges d `` (set visited - set parentNodes - {current})
           \<subseteq> set visited - set parentNodes - {current}
     \<and> (\<forall>b \<in> set visited - set parentNodes - {current}. (b, b) \<notin> (dependencyEdges d)\<^sup>+)"

text \<open>
  The specification's reading of "connected": the node lies on a path of the data flow
  from an Entry node to an Exit node.
\<close>

definition onEntryExitPath :: "PipelineDefinition \<Rightarrow> string \<Rightarrow> bool" where
  "onEntryExitPath d n \<longleftrightarrow>
     (\<exists>e \<in> set (nodeInfos d). \<exists>x \<in> set (nodeInfos d).
        kind e = ENTRY \<and> kind x = EXIT
        \<and> (n, nodeName e) \<in> (dependencyEdges d)\<^sup>*
        \<and> (nodeName x, n) \<in> (dependencyEdges d)\<^sup>*)"

section \<open>PipelineFactory::createDefinition\<close>

text \<open>
  The factory's table \<^verbatim>\<open>definitions\<close>, keyed by pipeline name. The two validation
  functions write to the definition only through \<^verbatim>\<open>connections[name]\<close> (see
  \<open>connectionsOf\<close>), so the definition that is stored is the one that was built.
\<close>

type_synonym PipelineFactory = "string \<rightharpoonup> PipelineDefinition"

definition definitionExists :: "PipelineFactory \<Rightarrow> string \<Rightarrow> bool" where
  "definitionExists definitions n = (definitions n \<noteq> None)"

definition createDefinition ::
  "PipelineFactory \<Rightarrow> string \<Rightarrow> NodeInfo list \<Rightarrow> pipeline_connections_t \<Rightarrow> lookup_t
     \<Rightarrow> StatusCode \<times> PipelineFactory" where
  "createDefinition definitions pName infos conns getModelInstance =
     (if definitionExists definitions pName then (PIPELINE_DEFINITION_ALREADY_EXIST, definitions)
      else
        (let pipelineDefinition = \<lparr>pipelineName = pName, nodeInfos = infos, connections = conns\<rparr>;
             validationResult = validateNodes getModelInstance pipelineDefinition
         in if validationResult \<noteq> OK then (validationResult, definitions)
            else
              (let validationResult = validateForCycles pipelineDefinition
               in if validationResult \<noteq> OK then (validationResult, definitions)
                  else (OK, definitions(pName \<mapsto> pipelineDefinition)))))"

section \<open>PipelineDefinition::create\<close>

text \<open>
  The node objects of a pipeline. The classes \<^verbatim>\<open>EntryNode\<close>, \<^verbatim>\<open>DLNode\<close>, \<^verbatim>\<open>ExitNode\<close>
  and \<^verbatim>\<open>Pipeline\<close> are declared outside the sources; a node is the tuple of arguments
  its constructor receives in \<^verbatim>\<open>create\<close>, a pipeline is what \<^verbatim>\<open>create\<close> hands to
  it. Constructors return no status, and \<^verbatim>\<open>create\<close> has no \<^verbatim>\<open>catch\<close>.
\<close>

datatype ('req, 'resp, 'mgr) Node =
    EntryNode 'req
  | DLNode string string "model_version_t option" 'mgr "string \<rightharpoonup> string"
  | ExitNode 'resp

text \<open>
  \<^verbatim>\<open>EntryNode* entry\<close> and \<^verbatim>\<open>ExitNode* exit\<close>: null at first, then the address of the
  node just made. When \<^verbatim>\<open>nodes.insert\<close> refuses the pair (the name is already a key),
  the node is destroyed with the pair and the pointer dangles.
\<close>

datatype 'a pointer = nullptr | dangling | pointer_to 'a

text \<open>The ways \<^verbatim>\<open>create\<close> can end without returning a status.\<close>

datatype Abnormal = out_of_range | undefined_behaviour

record ('req, 'resp, 'mgr) NodesState =
  nodes :: "string \<rightharpoonup> ('req, 'resp, 'mgr) Node"
  entry :: "('req, 'resp, 'mgr) Node pointer"
  exit :: "('req, 'resp, 'mgr) Node pointer"

record ('req, 'resp, 'mgr) Pipeline =
  pipelineEntry :: "('req, 'resp, 'mgr) Node"
  pipelineExit :: "('req, 'resp, 'mgr) Node"
  name_of_pipeline :: string
  pipelineNodes :: "string \<rightharpoonup> ('req, 'resp, 'mgr) Node"
  pipelineConnections :: "(string \<times> string \<times> InputPairs) list"

text \<open>\<^verbatim>\<open>std::unordered_map::insert\<close>: an existing key keeps its value.\<close>

definition insertNode :: "(string \<rightharpoonup> 'n) \<Rightarrow> string \<Rightarrow> 'n \<Rightarrow> (string \<rightharpoonup> 'n) \<times> bool" where
  "insertNode m k v = (if m k = None then (m(k \<mapsto> v), True) else (m, False))"

text \<open>
  The loop over \<^verbatim>\<open>nodeInfos\<close>. Its \<^verbatim>\<open>default\<close> branch (\<^verbatim>\<open>throw std::invalid_argument\<close>)
  has no counterpart: \<open>NodeKind\<close> has the three values only.
\<close>

fun createNodes ::
  "'req \<Rightarrow> 'resp \<Rightarrow> 'mgr \<Rightarrow> NodeInfo list \<Rightarrow> ('req, 'resp, 'mgr) NodesState
     \<Rightarrow> ('req, 'resp, 'mgr) NodesState" where
  "createNodes request response manager [] st = st"
| "createNodes request response manager (info # rest) st =
     createNodes request response manager rest
       (case kind info of
          ENTRY \<Rightarrow>
            (let node = EntryNode request;
                 ins = insertNode (nodes st) (nodeName info) node
             in st\<lparr>nodes := fst ins, entry := (if snd ins then pointer_to node else dangling)\<rparr>)
        | DL \<Rightarrow>
            st\<lparr>nodes := fst (insertNode (nodes st) (nodeName info)
                    (DLNode (nodeName info) (modelName info) (modelVersion info) manager
                       (outputNameAliases info)))\<rparr>
        | EXIT \<Rightarrow>
            (let node = ExitNode response;
                 ins = insertNode (nodes st) (nodeName info) node
             in st\<lparr>nodes := fst ins, exit := (if snd ins then pointer_to node else dangling)\<rparr>))"

text \<open>
  The two nested loops over \<^verbatim>\<open>connections\<close>; \<^verbatim>\<open>nodes.at\<close> throws \<^verbatim>\<open>std::out_of_range\<close>
  for a name that is not a key. \<^verbatim>\<open>Pipeline::connect\<close> is recorded as the triple
  \<open>(dependency, dependant, bindings)\<close>.
\<close>

fun connectDependencies ::
  "(string \<rightharpoonup> 'n) \<Rightarrow> string \<Rightarrow> (string \<times> InputPairs) list \<Rightarrow> (string \<times> string \<times> InputPairs) list
     \<Rightarrow> Abnormal + (string \<times> string \<times> InputPairs) list" where
  "connectDependencies ns dependant [] acc = Inr acc"
| "connectDependencies ns dependant ((dependency, pairs) # rest) acc =
     (if ns dependency = None then Inl out_of_range
      else connectDependencies ns dependant rest (acc @ [(dependency, dependant, pairs)]))"

fun connectAll ::
  "(string \<rightharpoonup> 'n) \<Rightarrow> pipeline_connections_t \<Rightarrow> (string \<times> string \<times> InputPairs) list
     \<Rightarrow> Abnormal + (string \<times> string \<times> InputPairs) list" where
  "connectAll ns [] acc = Inr acc"
| "connectAll ns ((dependant, deps) # rest) acc =
     (if ns dependant = None then Inl out_of_range
      else
        (case connectDependencies ns dependant deps acc of
           Inl e \<Rightarrow> Inl e
         | Inr acc' \<Rightarrow> connectAll ns rest acc'))"

definition create ::
  "PipelineDefinition \<Rightarrow> 'req \<Rightarrow> 'resp \<Rightarrow> 'mgr
     \<Rightarrow> Abnormal + (StatusCode \<times> ('req, 'resp, 'mgr) Pipeline)" where
  "create d request response manager =
     (let st = createNodes request response manager (nodeInfos d)
                 \<lparr>nodes = Map.empty, entry = nullptr, exit = nullptr\<rparr>
      in case connectAll (nodes st) (connections d) [] of
           Inl e \<Rightarrow> Inl e
         | Inr conns \<Rightarrow>
             (case entry st of
                pointer_to en \<Rightarrow>
                  (case exit st of
                     pointer_to ex \<Rightarrow>
                       Inr (OK, \<lparr>pipelineEntry = en, pipelineExit = ex, name_of_pipeline = pipelineName d,
                                 pipelineNodes = nodes st, pipelineConnections = conns\<rparr>)
                   | _ \<Rightarrow> Inl undefined_behaviour)
              | _ \<Rightarrow> Inl undefined_behaviour))"

section \<open>Model\<close>

text \<open>
  The fields of class \<^verbatim>\<open>Model\<close> and the two member functions that \<^verbatim>\<open>model.hpp\<close>
  defines in place.
\<close>

record Model =
  name :: string
  modelVersions :: "(model_version_t \<times> ModelInstance) list"
  defaultVersion :: model_version_t

definition getDefaultVersion :: "Model \<Rightarrow> model_version_t" where
  "getDefaultVersion m = defaultVersion m"

definition getModelInstanceByVersion :: "Model \<Rightarrow> model_version_t \<Rightarrow> ModelInstance option" where
  "getModelInstanceByVersion m v = map_of (modelVersions m) v"

text \<open>
  Modelled from the spec: \<^verbatim>\<open>Model::updateDefaultVersion\<close> is declared in \<^verbatim>\<open>model.hpp\<close> and
  defined in \<^verbatim>\<open>model.cpp\<close>, which is not among the sources. Section 4.C: "recompute the
  default as the numerically highest version whose instance is in AVAILABLE state. If no
  such version exists, the default is undefined (0)". The recomputation is one pass over
  the version map that keeps the highest AVAILABLE version seen, starting from 0.
\<close>

definition updateDefaultVersion :: "Model \<Rightarrow> Model" where
  "updateDefaultVersion m =
     m\<lparr>defaultVersion :=
         fold (\<lambda>(v, versionInstance) newDefaultVersion.
                 if v > newDefaultVersion \<and> status versionInstance = AVAILABLE then v
                 else newDefaultVersion)
              (modelVersions m) 0\<rparr>"

text \<open>
  Modelled from the spec: \<^verbatim>\<open>Model::getDefaultModelInstance\<close> is declared in \<^verbatim>\<open>model.hpp\<close>
  only. Section 4.C: a read-only lookup in the version map, at the default version.
\<close>

definition getDefaultModelInstance :: "Model \<Rightarrow> ModelInstance option" where
  "getDefaultModelInstance m = getModelInstanceByVersion m (getDefaultVersion m)"

text \<open>
  Modelled from the spec: \<^verbatim>\<open>addVersions\<close>, \<^verbatim>\<open>retireVersions\<close> and \<^verbatim>\<open>reloadVersions\<close> are
  declared in \<^verbatim>\<open>model.hpp\<close> only. Section 4.C: \<^verbatim>\<open>addVersions\<close> constructs and loads an
  instance for each new version that is absent from the map; \<^verbatim>\<open>retireVersions\<close> unloads
  each listed version that is present (it stays in the map, in state END);
  \<^verbatim>\<open>reloadVersions\<close> reloads each listed version on the existing instance; "after any
  mutation, recompute the default". The inference backend is a parameter: \<open>load\<close> gives
  the instance that loading a version yields (AVAILABLE or LOADING_FAILED), \<open>reload\<close>
  the instance that reloading yields. The status the three functions return is not
  modelled.
\<close>

definition addVersions ::
  "(model_version_t \<Rightarrow> ModelConfig \<Rightarrow> ModelInstance) \<Rightarrow> model_version_t list \<Rightarrow> ModelConfig
     \<Rightarrow> Model \<Rightarrow> Model" where
  "addVersions load versions cfg m =
     updateDefaultVersion
       (m\<lparr>modelVersions :=
            fold (\<lambda>v mv. if map_of mv v = None then mv @ [(v, load v cfg)] else mv)
                 versions (modelVersions m)\<rparr>)"

definition unload :: "ModelInstance \<Rightarrow> ModelInstance" where
  "unload inst = inst\<lparr>status := END\<rparr>"

definition retireVersions :: "model_version_t list \<Rightarrow> Model \<Rightarrow> Model" where
  "retireVersions versions m =
     updateDefaultVersion
       (m\<lparr>modelVersions :=
            map (\<lambda>(v, inst). if v \<in> set versions then (v, unload inst) else (v, inst))
                (modelVersions m)\<rparr>)"

definition reloadVersions ::
  "(ModelInstance \<Rightarrow> ModelConfig \<Rightarrow> ModelInstance) \<Rightarrow> model_version_t list \<Rightarrow> ModelConfig
     \<Rightarrow> Model \<Rightarrow> Model" where
  "reloadVersions reload versions cfg m =
     updateDefaultVersion
       (m\<lparr>modelVersions :=
            map (\<lambda>(v, inst). if v \<in> set versions then (v, reload inst cfg) else (v, inst))
                (modelVersions m)\<rparr>)"

text \<open>The versions of a model whose instance is in state AVAILABLE.\<close>

definition availableVersions :: "Model \<Rightarrow> model_version_t set" where
  "availableVersions m =
     {v. \<exists>inst. (v, inst) \<in> set (modelVersions m) \<and> status inst = AVAILABLE}"

section \<open>The manager's lookup\<close>

text \<open>
  Modelled from the spec: \<^verbatim>\<open>ModelManager\<close> and \<^verbatim>\<open>getModelInstance\<close> are not among the
  sources. Section 4.D: the manager is the registry of all models, and
  \<^verbatim>\<open>findModelInstance(name, version, ...)\<close> "resolves (name, version|default) to an
  AVAILABLE instance and returns a LivenessGuard", with the errors MODEL_NAME_MISSING,
  MODEL_VERSION_MISSING, MODEL_VERSION_NOT_LOADED_YET and
  MODEL_VERSION_NOT_LOADED_ANYMORE; section 4.B: the guard is granted iff the state is
  AVAILABLE. An instance that has not reached AVAILABLE is reported as not loaded yet,
  every other one as not loaded anymore.
\<close>

type_synonym ModelManager = "(string \<times> Model) list"

definition findModelByName :: "ModelManager \<Rightarrow> string \<Rightarrow> Model option" where
  "findModelByName manager n = map_of manager n"

definition getModelInstance :: "ModelManager \<Rightarrow> lookup_t" where
  "getModelInstance manager n v =
     (case findModelByName manager n of
        None \<Rightarrow> Inl MODEL_NAME_MISSING
      | Some model \<Rightarrow>
          (case (if v \<noteq> 0 then getModelInstanceByVersion model v
                 else getDefaultModelInstance model) of
             None \<Rightarrow> Inl MODEL_VERSION_MISSING
           | Some inst \<Rightarrow>
               (case status inst of
                  AVAILABLE \<Rightarrow> Inr inst
                | BEGIN \<Rightarrow> Inl MODEL_VERSION_NOT_LOADED_YET
                | LOADING \<Rightarrow> Inl MODEL_VERSION_NOT_LOADED_YET
                | _ \<Rightarrow> Inl MODEL_VERSION_NOT_LOADED_ANYMORE)))"

text \<open>The AVAILABLE instances of a manager, each with its model name and version.\<close>

definition availableInstances :: "ModelManager \<Rightarrow> (string \<times> model_version_t \<times> ModelInstance) set" where
  "availableInstances manager =
     {(n, v, inst). \<exists>m. findModelByName manager n = Some m
                        \<and> getModelInstanceByVersion m v = Some inst \<and> status inst = AVAILABLE}"

section \<open>Example data\<close>

text \<open>
  Scenario S4 of the specification: model X declares the outputs \<open>detection_out\<close> and
  \<open>feature_out\<close>; the DL node A renames \<open>detection_out\<close> to \<open>faces\<close>.
\<close>

definition exampleTensor :: TensorInfo where
  "exampleTensor = \<lparr>precision = ''FP32'', dims = [1, 10]\<rparr>"

definition fixedConfig :: ModelConfig where
  "fixedConfig = \<lparr>batchingMode = FIXED, shapes = [(''input'', \<lparr>shapeMode = FIXED, shape = [1, 10]\<rparr>)]\<rparr>"

definition autoBatchConfig :: ModelConfig where
  "autoBatchConfig = \<lparr>batchingMode = AUTO, shapes = []\<rparr>"

definition instanceX :: "model_version_t \<Rightarrow> ModelVersionState \<Rightarrow> ModelConfig \<Rightarrow> ModelInstance" where
  "instanceX v st cfg =
     \<lparr>instanceName = ''X'', version = v, status = st, config = cfg,
      inputsInfo = [(''input'', exampleTensor)],
      outputsInfo = [(''detection_out'', exampleTensor), (''feature_out'', exampleTensor)]\<rparr>"

definition modelX :: "(model_version_t \<times> ModelInstance) list \<Rightarrow> model_version_t \<Rightarrow> Model" where
  "modelX vs dv = \<lparr>name = ''X'', modelVersions = vs, defaultVersion = dv\<rparr>"

definition managerX :: "(model_version_t \<times> ModelInstance) list \<Rightarrow> model_version_t \<Rightarrow> ModelManager" where
  "managerX vs dv = [(''X'', modelX vs dv)]"

text \<open>Version 1 of X is AVAILABLE, with fixed batch size and shape.\<close>

definition exampleManager :: ModelManager where
  "exampleManager = managerX [(1, instanceX 1 AVAILABLE fixedConfig)] 1"

text \<open>Version 1 of X is AVAILABLE, with \<open>batch_size = auto\<close>.\<close>

definition autoBatchManager :: ModelManager where
  "autoBatchManager = managerX [(1, instanceX 1 AVAILABLE autoBatchConfig)] 1"

definition requestNode :: NodeInfo where
  "requestNode = \<lparr>kind = ENTRY, nodeName = ''request'', modelName = '''', modelVersion = None,
                   outputNameAliases = Map.empty\<rparr>"

definition responseNode :: NodeInfo where
  "responseNode = \<lparr>kind = EXIT, nodeName = ''response'', modelName = '''', modelVersion = None,
                    outputNameAliases = Map.empty\<rparr>"

definition nodeA :: NodeInfo where
  "nodeA = \<lparr>kind = DL, nodeName = ''A'', modelName = ''X'', modelVersion = None,
             outputNameAliases = [''faces'' \<mapsto> ''detection_out'']\<rparr>"

text \<open>request \<open>\<rightarrow>\<close> A \<open>\<rightarrow>\<close> response.\<close>

definition examplePipeline :: PipelineDefinition where
  "examplePipeline =
     \<lparr>pipelineName = ''example'',
      nodeInfos = [requestNode, nodeA, responseNode],
      connections =
        [(''A'', [(''request'', [(''image'', ''input'')])]),
         (''response'', [(''A'', [(''faces'', ''response_tensor'')])])]\<rparr>"

text \<open>Version 1 of X has been retired: it stays in the map in state END, the default is 0.\<close>

definition retiredManager :: ModelManager where
  "retiredManager = managerX [(1, instanceX 1 END fixedConfig)] 0"

text \<open>The response node depends on a node \<open>ghost\<close> that is not declared.\<close>

definition ghostPipeline :: PipelineDefinition where
  "ghostPipeline =
     \<lparr>pipelineName = ''ghost'',
      nodeInfos = [requestNode, nodeA, responseNode],
      connections =
        [(''A'', [(''request'', [(''image'', ''input'')])]),
         (''response'', [(''ghost'', [(''out'', ''response_tensor'')])])]\<rparr>"

text \<open>The edge from the request node to A carries no binding.\<close>

definition unboundEntryPipeline :: PipelineDefinition where
  "unboundEntryPipeline =
     \<lparr>pipelineName = ''unboundEntry'',
      nodeInfos = [requestNode, nodeA, responseNode],
      connections =
        [(''A'', [(''request'', [])]),
         (''response'', [(''A'', [(''faces'', ''response_tensor'')])])]\<rparr>"

text \<open>The edge from A to the response node carries no binding.\<close>

definition unboundModelPipeline :: PipelineDefinition where
  "unboundModelPipeline =
     \<lparr>pipelineName = ''unboundModel'',
      nodeInfos = [requestNode, nodeA, responseNode],
      connections =
        [(''A'', [(''request'', [(''image'', ''input'')])]),
         (''response'', [(''A'', [])])]\<rparr>"

text \<open>A second DL node on model X, without aliases.\<close>

definition nodeB :: NodeInfo where
  "nodeB = \<lparr>kind = DL, nodeName = ''B'', modelName = ''X'', modelVersion = None,
             outputNameAliases = Map.empty\<rparr>"

text \<open>
  The edge from A to the response node carries two bindings; the second names an output
  \<open>unknown\<close> that X does not declare and A does not alias.
\<close>

definition lateUnknownToExitPipeline :: PipelineDefinition where
  "lateUnknownToExitPipeline =
     \<lparr>pipelineName = ''lateUnknownToExit'',
      nodeInfos = [requestNode, nodeA, responseNode],
      connections =
        [(''A'', [(''request'', [(''image'', ''input'')])]),
         (''response'', [(''A'', [(''faces'', ''response_tensor''), (''unknown'', ''other_tensor'')])])]\<rparr>"

text \<open>The same two bindings on an edge from A to the DL node B.\<close>

definition lateUnknownToModelPipeline :: PipelineDefinition where
  "lateUnknownToModelPipeline =
     \<lparr>pipelineName = ''lateUnknownToModel'',
      nodeInfos = [requestNode, nodeA, nodeB, responseNode],
      connections =
        [(''A'', [(''request'', [(''image'', ''input'')])]),
         (''B'', [(''A'', [(''faces'', ''input''), (''unknown'', ''input'')])]),
         (''response'', [(''B'', [(''detection_out'', ''response_tensor'')])])]\<rparr>"

text \<open>No Entry node, and the response node depends on an undeclared node.\<close>

definition noEntryGhostPipeline :: PipelineDefinition where
  "noEntryGhostPipeline =
     \<lparr>pipelineName = ''noEntryGhost'',
      nodeInfos = [nodeA, responseNode],
      connections = [(''response'', [(''ghost'', [(''out'', ''response_tensor'')])])]\<rparr>"

text \<open>
  Scenario S5 of the specification: the DL node names version 1 of X explicitly. The
  definition validates while version 1 is AVAILABLE (\<open>exampleManager\<close>); the version is
  retired before the request arrives (\<open>retiredManager\<close>).
\<close>

definition pinnedNodeA :: NodeInfo where
  "pinnedNodeA = nodeA\<lparr>modelVersion := Some 1\<rparr>"

definition pinnedPipeline :: PipelineDefinition where
  "pinnedPipeline =
     \<lparr>pipelineName = ''pinned'',
      nodeInfos = [requestNode, pinnedNodeA, responseNode],
      connections =
        [(''A'', [(''request'', [(''image'', ''input'')])]),
         (''response'', [(''A'', [(''faces'', ''response_tensor'')])])]\<rparr>"

text \<open>
  The model of \<open>exampleManager\<close>, a backend whose loads all succeed, and the manager after
  version 2 of X has been added with \<open>batch_size = auto\<close>.
\<close>

definition exampleModel :: Model where
  "exampleModel = modelX [(1, instanceX 1 AVAILABLE fixedConfig)] 1"

definition loadAvailable :: "model_version_t \<Rightarrow> ModelConfig \<Rightarrow> ModelInstance" where
  "loadAvailable v cfg = instanceX v AVAILABLE cfg"

definition upgradedManager :: ModelManager where
  "upgradedManager = [(''X'', addVersions loadAvailable [2] autoBatchConfig exampleModel)]"

text \<open>\<open>exampleManager\<close> with a second model Y.\<close>

definition modelY :: Model where
  "modelY = \<lparr>name = ''Y'', modelVersions = [(1, instanceX 1 AVAILABLE autoBatchConfig)],
              defaultVersion = 1\<rparr>"

definition extendedManager :: ModelManager where
  "extendedManager = exampleManager @ [(''Y'', modelY)]"

text \<open>
  The DL node A has no incoming connection: the response node depends on the request
  node and on A.
\<close>

definition orphanPipeline :: PipelineDefinition where
  "orphanPipeline =
     \<lparr>pipelineName = ''orphan'',
      nodeInfos = [requestNode, nodeA, responseNode],
      connections =
        [(''response'', [(''request'', [(''image'', ''response_tensor'')]),
                         (''A'', [(''faces'', ''other_tensor'')])])]\<rparr>"

text \<open>Scenario S3 of the specification: request \<open>\<rightarrow>\<close> A, A \<open>\<rightarrow>\<close> B, B \<open>\<rightarrow>\<close> A, B \<open>\<rightarrow>\<close> response.\<close>

definition cyclePipeline :: PipelineDefinition where
  "cyclePipeline =
     \<lparr>pipelineName = ''cycle'',
      nodeInfos = [requestNode, nodeA, nodeB, responseNode],
      connections =
        [(''A'', [(''request'', [(''image'', ''input'')]), (''B'', [(''feature_out'', ''input'')])]),
         (''B'', [(''A'', [(''faces'', ''input'')])]),
         (''response'', [(''B'', [(''detection_out'', ''response_tensor'')])])]\<rparr>"

text \<open>
  \<open>examplePipeline\<close> with one more entry in \<open>connections\<close>, under a key that names no
  declared node: a connection from an undeclared source, and one from A without bindings.
\<close>

definition phantomPipeline :: PipelineDefinition where
  "phantomPipeline =
     \<lparr>pipelineName = ''phantom'',
      nodeInfos = [requestNode, nodeA, responseNode],
      connections =
        [(''A'', [(''request'', [(''image'', ''input'')])]),
         (''response'', [(''A'', [(''faces'', ''response_tensor'')])]),
         (''phantom'', [(''ghost'', [(''out'', ''in'')]), (''A'', [])])]\<rparr>"

lemmas example_defs =
  exampleTensor_def fixedConfig_def autoBatchConfig_def instanceX_def modelX_def managerX_def
  exampleManager_def autoBatchManager_def retiredManager_def
  requestNode_def responseNode_def nodeA_def
  examplePipeline_def ghostPipeline_def unboundEntryPipeline_def unboundModelPipeline_def
  nodeB_def lateUnknownToExitPipeline_def lateUnknownToModelPipeline_def noEntryGhostPipeline_def
  pinnedNodeA_def pinnedPipeline_def orphanPipeline_def cyclePipeline_def phantomPipeline_def

lemmas model_defs = modelX_def loadAvailable_def exampleModel_def upgradedManager_def
  addVersions_def retireVersions_def reloadVersions_def updateDefaultVersion_def unload_def

lemmas lookup_defs =
  getModelInstance_def findModelByName_def getDefaultModelInstance_def
  getModelInstanceByVersion_def getDefaultVersion_def value_or_def

section \<open>Properties of validateNode and validateNodes\<close>

lemma validateNodesLoop_OK_validateNode:
  "validateNodesLoop g d ef xf ns = OK \<Longrightarrow> n \<in> set ns \<Longrightarrow> validateNode g d n = OK"
  by (induction ns arbitrary: ef xf) (auto simp: Let_def split: if_splits)

lemma validateNodes_OK_validateNode:
  "validateNodes g d = OK \<Longrightarrow> n \<in> set (nodeInfos d) \<Longrightarrow> validateNode g d n = OK"
  unfolding validateNodes_def by (rule validateNodesLoop_OK_validateNode)

lemma validateConnections_append_fail:
  "validateConnections g infos node ins xs \<noteq> OK \<Longrightarrow>
   validateConnections g infos node ins (xs @ ys) = validateConnections g infos node ins xs"
  by (induction xs) (auto simp: Let_def split: option.splits sum.splits if_splits)

lemma validateConnections_append_OK:
  "validateConnections g infos node ins xs = OK \<Longrightarrow>
   validateConnections g infos node ins (xs @ ys) = validateConnections g infos node ins ys"
  by (induction xs) (auto simp: Let_def split: option.splits sum.splits if_splits)

lemma validateBindings_modelVersion:
  "validateBindings node ins (src\<lparr>modelVersion := v\<rparr>) outs ps = validateBindings node ins src outs ps"
  by (induction ps) (auto simp: Let_def)

lemma find_modelVersion_update:
  "find (\<lambda>ni. nodeName ni = s) (map (\<lambda>n. n\<lparr>modelVersion := f n\<rparr>) infos) =
     map_option (\<lambda>n. n\<lparr>modelVersion := f n\<rparr>) (find (\<lambda>ni. nodeName ni = s) infos)"
  by (induction infos) auto

lemma validateConnections_modelVersion:
  "validateConnections g (map (\<lambda>n. n\<lparr>modelVersion := f n\<rparr>) infos) node ins cs =
     validateConnections g infos node ins cs"
  by (induction cs)
     (auto simp: Let_def find_modelVersion_update validateBindings_modelVersion
           split: option.split sum.split)

lemma connectionsOf_only [simp]:
  "connectionsOf (d\<lparr>connections := [(n, cs)]\<rparr>) n = cs"
  by (simp add: connectionsOf_def)

lemma connectionsOf_nodeInfos_update [simp]:
  "connectionsOf (d\<lparr>nodeInfos := x\<rparr>) n = connectionsOf d n"
  by (simp add: connectionsOf_def)

lemma validateNode_after_prefix:
  assumes "connectionsOf d (nodeName node) = pre @ rest"
    and "validateNode lookup (d\<lparr>connections := [(nodeName node, pre)]\<rparr>) node = OK"
  shows "\<exists>ins. validateNode lookup d node = validateConnections lookup (nodeInfos d) node ins rest"
  using assms
  by (auto simp: validateNode_def validateConnections_append_OK
           split: if_splits sum.splits)

lemma validateNode_edge_fails:
  assumes "(s, ps) \<in> set (connectionsOf d (nodeName node))"
    and "\<And>ins rest. validateConnections lookup (nodeInfos d) node ins ((s, ps) # rest) \<noteq> OK"
  shows "validateNode lookup d node \<noteq> OK"
proof -
  from assms(1) obtain pre post where decomp: "connectionsOf d (nodeName node) = pre @ (s, ps) # post"
    by (auto simp: in_set_conv_decomp)
  have "validateConnections lookup (nodeInfos d) node ins (pre @ (s, ps) # post) \<noteq> OK" for ins
    using assms(2) [of ins post]
      validateConnections_append_OK [of lookup "nodeInfos d" node ins pre "(s, ps) # post"]
      validateConnections_append_fail [of lookup "nodeInfos d" node ins pre "(s, ps) # post"]
    by (cases "validateConnections lookup (nodeInfos d) node ins pre = OK") auto
  then show ?thesis
    by (auto simp: validateNode_def decomp split: sum.splits)
qed

lemma find_None_nodeName:
  "s \<notin> nodeName ` set infos \<Longrightarrow> find (\<lambda>nodeInfo. nodeName nodeInfo = s) infos = None"
  by (auto simp: find_None_iff)

lemma validateNode_modelVersion:
  "validateNode lookup (d\<lparr>nodeInfos := map (\<lambda>n. n\<lparr>modelVersion := f n\<rparr>) (nodeInfos d)\<rparr>) node
     = validateNode lookup d node"
  by (simp add: validateNode_def validateConnections_modelVersion split: sum.split)

lemma validateConnections_lookup_cong:
  "(\<And>n. g n 0 = g' n 0) \<Longrightarrow>
   validateConnections g infos node ins cs = validateConnections g' infos node ins cs"
  by (induction cs) (auto simp: Let_def split: option.split sum.split)

lemma validateNode_lookup_cong:
  assumes "\<And>n. lookup' n 0 = lookup n 0"
    and "lookup' (modelName node) (value_or (modelVersion node) 0)
           = lookup (modelName node) (value_or (modelVersion node) 0)"
  shows "validateNode lookup' d node = validateNode lookup d node"
  using assms(2) validateConnections_lookup_cong [of lookup' lookup, OF assms(1)]
  by (simp add: validateNode_def split: sum.split)

lemma validateNode_own_checks:
  "validateNode lookup d0 node = OK \<Longrightarrow>
   validateNode lookup d' node =
     validateConnections lookup (nodeInfos d') node (nodeInputsOf lookup node)
       (connectionsOf d' (nodeName node))"
  by (auto simp: validateNode_def nodeInputsOf_def split: if_splits sum.splits)

text \<open>
  C6. A DL node whose model resolves to an instance with dynamic batching
  (\<open>batch_size = auto\<close>) or with a dynamic shape fails \<open>validateNode\<close> with
  \<open>FORBIDDEN_MODEL_DYNAMIC_PARAMETER\<close>, and a definition that holds such a node does not
  validate.
\<close>

theorem validateNode_forbids_dynamic_parameter:
  assumes "kind node = DL"
    and "lookup (modelName node) (value_or (modelVersion node) 0) = Inr inst"
    and "batchingMode (config inst) = AUTO
         \<or> (\<exists>s \<in> set (shapes (config inst)). shapeMode (snd s) = AUTO)"
  shows "validateNode lookup d node = FORBIDDEN_MODEL_DYNAMIC_PARAMETER
         \<and> (node \<in> set (nodeInfos d) \<longrightarrow> validateNodes lookup d \<noteq> OK)"
proof -
  have forbidden: "validateNode lookup d node = FORBIDDEN_MODEL_DYNAMIC_PARAMETER"
    using assms by (auto simp: validateNode_def list_ex_iff)
  then show ?thesis
    using validateNodes_OK_validateNode [of lookup d node] by auto
qed

theorem validateNode_forbids_dynamic_parameter_witness:
  "kind nodeA = DL
   \<and> getModelInstance autoBatchManager (modelName nodeA) (value_or (modelVersion nodeA) 0)
       = Inr (instanceX 1 AVAILABLE autoBatchConfig)
   \<and> batchingMode (config (instanceX 1 AVAILABLE autoBatchConfig)) = AUTO
   \<and> nodeA \<in> set (nodeInfos examplePipeline)
   \<and> validateNode (getModelInstance autoBatchManager) examplePipeline nodeA
       = FORBIDDEN_MODEL_DYNAMIC_PARAMETER
   \<and> validateNodes (getModelInstance autoBatchManager) examplePipeline \<noteq> OK"
proof -
  have k: "kind nodeA = DL"
    by (simp add: nodeA_def)
  have r: "getModelInstance autoBatchManager (modelName nodeA) (value_or (modelVersion nodeA) 0)
             = Inr (instanceX 1 AVAILABLE autoBatchConfig)"
    by (simp add: example_defs lookup_defs)
  have b: "batchingMode (config (instanceX 1 AVAILABLE autoBatchConfig)) = AUTO"
    by (simp add: instanceX_def autoBatchConfig_def)
  have m: "nodeA \<in> set (nodeInfos examplePipeline)"
    by (simp add: examplePipeline_def)
  from validateNode_forbids_dynamic_parameter
         [of nodeA "getModelInstance autoBatchManager" "instanceX 1 AVAILABLE autoBatchConfig"
             examplePipeline] k r b m
  show ?thesis by simp
qed

text \<open>
  C4 (as amended). When a connection of a node names a source that is not among the
  NodeInfos of the definition, \<open>validateNode\<close> does not return \<open>OK\<close> for that node, so a
  definition that declares the node does not validate; when every earlier check of the
  node passes (the node validates with the connections before this one alone), the status
  is \<open>MODEL_NAME_MISSING\<close>. (Connections stored under a key that names no declared node
  are never examined.)
\<close>

theorem missing_source_node_reports_MODEL_NAME_MISSING:
  assumes "connectionsOf d (nodeName node) = pre @ (sourceNodeName, pairs) # post"
    and "sourceNodeName \<notin> nodeName ` set (nodeInfos d)"
  shows "validateNode lookup d node \<noteq> OK
         \<and> (node \<in> set (nodeInfos d) \<longrightarrow> validateNodes lookup d \<noteq> OK)
         \<and> (validateNode lookup (d\<lparr>connections := [(nodeName node, pre)]\<rparr>) node = OK \<longrightarrow>
              validateNode lookup d node = MODEL_NAME_MISSING)"
proof -
  have none: "find (\<lambda>nodeInfo. nodeName nodeInfo = sourceNodeName) (nodeInfos d) = None"
    using assms(2) by (rule find_None_nodeName)
  have "(sourceNodeName, pairs) \<in> set (connectionsOf d (nodeName node))"
    using assms(1) by simp
  then have fails: "validateNode lookup d node \<noteq> OK"
    by (rule validateNode_edge_fails) (simp add: none)
  moreover have "validateNode lookup d node = MODEL_NAME_MISSING"
    if "validateNode lookup (d\<lparr>connections := [(nodeName node, pre)]\<rparr>) node = OK"
    using validateNode_after_prefix [OF assms(1) that] by (auto simp: none)
  ultimately show ?thesis
    using validateNodes_OK_validateNode [of lookup d node] by auto
qed

theorem missing_source_node_reports_MODEL_NAME_MISSING_witness:
  "connectionsOf ghostPipeline (nodeName responseNode)
     = [] @ (''ghost'', [(''out'', ''response_tensor'')]) # []
   \<and> ''ghost'' \<notin> nodeName ` set (nodeInfos ghostPipeline)
   \<and> responseNode \<in> set (nodeInfos ghostPipeline)
   \<and> validateNode (getModelInstance exampleManager)
        (ghostPipeline\<lparr>connections := [(nodeName responseNode, [])]\<rparr>) responseNode = OK
   \<and> validateNode (getModelInstance exampleManager) ghostPipeline responseNode = MODEL_NAME_MISSING
   \<and> validateNodes (getModelInstance exampleManager) ghostPipeline \<noteq> OK"
proof -
  have h1: "connectionsOf ghostPipeline (nodeName responseNode)
              = [] @ (''ghost'', [(''out'', ''response_tensor'')]) # []"
    by (simp add: connectionsOf_def example_defs)
  have h2: "''ghost'' \<notin> nodeName ` set (nodeInfos ghostPipeline)"
    by (simp add: example_defs)
  have h3: "responseNode \<in> set (nodeInfos ghostPipeline)"
    by (simp add: ghostPipeline_def)
  have h4: "validateNode (getModelInstance exampleManager)
              (ghostPipeline\<lparr>connections := [(nodeName responseNode, [])]\<rparr>) responseNode = OK"
    by (simp add: validateNode_def responseNode_def)
  from missing_source_node_reports_MODEL_NAME_MISSING
         [OF h1 h2, of "getModelInstance exampleManager"] h1 h2 h3 h4
  show ?thesis by blast
qed

theorem missing_source_node_counterexample:
  "(''ghost'', [(''out'', ''response_tensor'')]) \<in> set (connectionsOf ghostPipeline ''response'')
   \<and> ''ghost'' \<notin> nodeName ` set (nodeInfos ghostPipeline)
   \<and> validateNodes (getModelInstance exampleManager) ghostPipeline = MODEL_NAME_MISSING
   \<and> validateNodes (getModelInstance exampleManager) ghostPipeline \<noteq> PIPELINE_MISSING_DEPENDENCY"
  by (simp add: validateNodes_def validateNode_def connectionsOf_def example_defs lookup_defs)

text \<open>
  C5 (as amended). When a connection of a node has a DL node as its source and carries no
  binding, \<open>validateNode\<close> does not return \<open>OK\<close> for that node, so a definition that
  declares the node does not validate; when every earlier check of the node passes and the
  model of the source resolves, the status is
  \<open>PIPELINE_DEFINITION_MISSING_DEPENDENCY_MAPPING\<close>. (A connection whose source is not a DL
  node is not examined for bindings at all, and connections stored under a key that names
  no declared node are never examined.)
\<close>

theorem empty_bindings_of_DL_source_rejected:
  assumes "connectionsOf d (nodeName node) = pre @ (sourceNodeName, []) # post"
    and "find (\<lambda>nodeInfo. nodeName nodeInfo = sourceNodeName) (nodeInfos d) = Some sourceNodeInfo"
    and "kind sourceNodeInfo = DL"
  shows "validateNode lookup d node \<noteq> OK
         \<and> (node \<in> set (nodeInfos d) \<longrightarrow> validateNodes lookup d \<noteq> OK)
         \<and> (validateNode lookup (d\<lparr>connections := [(nodeName node, pre)]\<rparr>) node = OK
              \<and> lookup (modelName sourceNodeInfo) 0 = Inr inst \<longrightarrow>
              validateNode lookup d node = PIPELINE_DEFINITION_MISSING_DEPENDENCY_MAPPING)"
proof -
  have "(sourceNodeName, []) \<in> set (connectionsOf d (nodeName node))"
    using assms(1) by simp
  then have fails: "validateNode lookup d node \<noteq> OK"
    by (rule validateNode_edge_fails) (simp add: assms(2,3) split: sum.split)
  moreover have "validateNode lookup d node = PIPELINE_DEFINITION_MISSING_DEPENDENCY_MAPPING"
    if "validateNode lookup (d\<lparr>connections := [(nodeName node, pre)]\<rparr>) node = OK"
      and "lookup (modelName sourceNodeInfo) 0 = Inr inst"
    using validateNode_after_prefix [OF assms(1) that(1)] that(2) by (auto simp: assms(2,3))
  ultimately show ?thesis
    using validateNodes_OK_validateNode [of lookup d node] by auto
qed

theorem empty_bindings_of_DL_source_rejected_witness:
  "connectionsOf unboundModelPipeline (nodeName responseNode) = [] @ (''A'', []) # []
   \<and> find (\<lambda>nodeInfo. nodeName nodeInfo = ''A'') (nodeInfos unboundModelPipeline) = Some nodeA
   \<and> kind nodeA = DL
   \<and> responseNode \<in> set (nodeInfos unboundModelPipeline)
   \<and> validateNode (getModelInstance exampleManager)
        (unboundModelPipeline\<lparr>connections := [(nodeName responseNode, [])]\<rparr>) responseNode = OK
   \<and> getModelInstance exampleManager (modelName nodeA) 0 = Inr (instanceX 1 AVAILABLE fixedConfig)
   \<and> validateNode (getModelInstance exampleManager) unboundModelPipeline responseNode
       = PIPELINE_DEFINITION_MISSING_DEPENDENCY_MAPPING
   \<and> validateNodes (getModelInstance exampleManager) unboundModelPipeline \<noteq> OK"
proof -
  have h1: "connectionsOf unboundModelPipeline (nodeName responseNode) = [] @ (''A'', []) # []"
    by (simp add: connectionsOf_def example_defs)
  have h2: "find (\<lambda>nodeInfo. nodeName nodeInfo = ''A'') (nodeInfos unboundModelPipeline) = Some nodeA"
    by (simp add: example_defs)
  have h3: "kind nodeA = DL"
    by (simp add: nodeA_def)
  have h4: "responseNode \<in> set (nodeInfos unboundModelPipeline)"
    by (simp add: unboundModelPipeline_def)
  have h5: "validateNode (getModelInstance exampleManager)
              (unboundModelPipeline\<lparr>connections := [(nodeName responseNode, [])]\<rparr>) responseNode = OK"
    by (simp add: validateNode_def responseNode_def)
  have h6: "getModelInstance exampleManager (modelName nodeA) 0 = Inr (instanceX 1 AVAILABLE fixedConfig)"
    by (simp add: example_defs lookup_defs)
  from empty_bindings_of_DL_source_rejected
         [OF h1 h2 h3, of "getModelInstance exampleManager" "instanceX 1 AVAILABLE fixedConfig"]
       h1 h2 h3 h4 h5 h6
  show ?thesis by blast
qed

theorem empty_bindings_of_entry_source_counterexample:
  "(''request'', []) \<in> set (connectionsOf unboundEntryPipeline ''A'')
   \<and> validateNodes (getModelInstance exampleManager) unboundEntryPipeline = OK
   \<and> validateForCycles unboundEntryPipeline = OK
   \<and> fst (createDefinition Map.empty ''unboundEntry'' (nodeInfos unboundEntryPipeline)
             (connections unboundEntryPipeline) (getModelInstance exampleManager)) = OK"
  by (simp add: createDefinition_def definitionExists_def validateNodes_def validateNode_def
        validateForCycles_def cyclesLoop.simps connectionsOf_def example_defs lookup_defs)

text \<open>
  Connections under a key that names no declared node are not examined: neither the
  undeclared source nor the empty list of bindings under \<open>phantom\<close> is noticed.
\<close>

lemma connections_of_undeclared_node_not_examined:
  "''phantom'' \<notin> nodeName ` set (nodeInfos phantomPipeline)
   \<and> connectionsOf phantomPipeline ''phantom'' = [(''ghost'', [(''out'', ''in'')]), (''A'', [])]
   \<and> validateNodes (getModelInstance exampleManager) phantomPipeline = OK
   \<and> validateForCycles phantomPipeline = OK"
  by (simp add: validateNodes_def validateNode_def validateForCycles_def cyclesLoop.simps
        connectionsOf_def example_defs lookup_defs)

text \<open>
  C10. When \<open>validateNode\<close> reaches a connection whose source is a DL node (every earlier
  check of the node passes), the outcome is decided by the lookup of the source's model at
  version 0: \<open>MODEL_MISSING\<close> when that lookup fails, and otherwise the checks of the
  bindings against the outputs of the instance it returns, followed by the remaining
  connections. The versions declared in the NodeInfos of the definition have no influence
  on the result, nor has any answer of the lookup at another version than 0, the node's
  own lookup apart.
\<close>

theorem source_model_resolved_at_default_version:
  assumes "connectionsOf d (nodeName node) = pre @ (sourceNodeName, pairs) # post"
    and "find (\<lambda>nodeInfo. nodeName nodeInfo = sourceNodeName) (nodeInfos d) = Some sourceNodeInfo"
    and "kind sourceNodeInfo = DL"
    and "validateNode lookup (d\<lparr>connections := [(nodeName node, pre)]\<rparr>) node = OK"
  shows "validateNode lookup d node =
           (case lookup (modelName sourceNodeInfo) 0 of
              Inl err \<Rightarrow> MODEL_MISSING
            | Inr sourceNodeModelInstance \<Rightarrow>
                if pairs = [] then PIPELINE_DEFINITION_MISSING_DEPENDENCY_MAPPING
                else if validateBindings node (nodeInputsOf lookup node) sourceNodeInfo
                          (outputsInfo sourceNodeModelInstance) pairs \<noteq> OK
                then validateBindings node (nodeInputsOf lookup node) sourceNodeInfo
                       (outputsInfo sourceNodeModelInstance) pairs
                else validateNode lookup (d\<lparr>connections := [(nodeName node, post)]\<rparr>) node)
         \<and> validateNode lookup
              (d\<lparr>nodeInfos := map (\<lambda>n. n\<lparr>modelVersion := f n\<rparr>) (nodeInfos d)\<rparr>) node
             = validateNode lookup d node
         \<and> ((\<forall>n. lookup' n 0 = lookup n 0)
              \<and> lookup' (modelName node) (value_or (modelVersion node) 0)
                  = lookup (modelName node) (value_or (modelVersion node) 0)
             \<longrightarrow> validateNode lookup' d node = validateNode lookup d node)"
proof -
  let ?ins = "nodeInputsOf lookup node"
  let ?vc = "validateConnections lookup (nodeInfos d) node ?ins"
  have pre: "?vc pre = OK"
    using validateNode_own_checks [OF assms(4), of "d\<lparr>connections := [(nodeName node, pre)]\<rparr>"]
      assms(4) by simp
  have "validateNode lookup d node = ?vc (pre @ (sourceNodeName, pairs) # post)"
    using validateNode_own_checks [OF assms(4), of d] assms(1) by simp
  also have "\<dots> = ?vc ((sourceNodeName, pairs) # post)"
    using pre by (rule validateConnections_append_OK)
  finally have whole: "validateNode lookup d node = ?vc ((sourceNodeName, pairs) # post)" .
  have rest: "validateNode lookup (d\<lparr>connections := [(nodeName node, post)]\<rparr>) node = ?vc post"
    using validateNode_own_checks [OF assms(4), of "d\<lparr>connections := [(nodeName node, post)]\<rparr>"]
    by simp
  have first: "validateNode lookup d node =
           (case lookup (modelName sourceNodeInfo) 0 of
              Inl err \<Rightarrow> MODEL_MISSING
            | Inr sourceNodeModelInstance \<Rightarrow>
                if pairs = [] then PIPELINE_DEFINITION_MISSING_DEPENDENCY_MAPPING
                else if validateBindings node ?ins sourceNodeInfo
                          (outputsInfo sourceNodeModelInstance) pairs \<noteq> OK
                then validateBindings node ?ins sourceNodeInfo
                       (outputsInfo sourceNodeModelInstance) pairs
                else validateNode lookup (d\<lparr>connections := [(nodeName node, post)]\<rparr>) node)"
    unfolding whole rest by (simp add: assms(2,3) Let_def split: sum.split)
  have third: "validateNode lookup' d node = validateNode lookup d node"
    if "\<forall>n. lookup' n 0 = lookup n 0"
      and "lookup' (modelName node) (value_or (modelVersion node) 0)
           = lookup (modelName node) (value_or (modelVersion node) 0)"
    using that by (intro validateNode_lookup_cong) simp_all
  from first third show ?thesis
    by (simp add: validateNode_modelVersion)
qed


theorem source_model_resolved_at_default_version_witness:
  "connectionsOf examplePipeline (nodeName responseNode)
     = [] @ (''A'', [(''faces'', ''response_tensor'')]) # []
   \<and> find (\<lambda>nodeInfo. nodeName nodeInfo = ''A'') (nodeInfos examplePipeline) = Some nodeA
   \<and> kind nodeA = DL
   \<and> validateNode (getModelInstance retiredManager)
        (examplePipeline\<lparr>connections := [(nodeName responseNode, [])]\<rparr>) responseNode = OK
   \<and> getModelInstance retiredManager (modelName nodeA) 0 = Inl MODEL_VERSION_MISSING
   \<and> validateNode (getModelInstance retiredManager) examplePipeline responseNode = MODEL_MISSING
   \<and> validateNode (getModelInstance exampleManager)
        (examplePipeline\<lparr>connections := [(nodeName responseNode, [])]\<rparr>) responseNode = OK
   \<and> getModelInstance exampleManager (modelName nodeA) 0 = Inr (instanceX 1 AVAILABLE fixedConfig)
   \<and> getModelInstance exampleManager (modelName nodeA) 7 = Inl MODEL_VERSION_MISSING
   \<and> validateNode (getModelInstance exampleManager) examplePipeline responseNode = OK
   \<and> validateNode (getModelInstance exampleManager)
        (examplePipeline\<lparr>nodeInfos := map (\<lambda>n. n\<lparr>modelVersion := Some 7\<rparr>)
                                          (nodeInfos examplePipeline)\<rparr>) responseNode = OK
   \<and> validateNode (\<lambda>n v. getModelInstance exampleManager n 0) examplePipeline responseNode = OK"
proof -
  let ?R = "getModelInstance retiredManager"
  let ?L = "getModelInstance exampleManager"
  have h1: "connectionsOf examplePipeline (nodeName responseNode)
              = [] @ (''A'', [(''faces'', ''response_tensor'')]) # []"
    by (simp add: connectionsOf_def example_defs)
  have h2: "find (\<lambda>nodeInfo. nodeName nodeInfo = ''A'') (nodeInfos examplePipeline) = Some nodeA"
    by (simp add: example_defs)
  have h3: "kind nodeA = DL"
    by (simp add: nodeA_def)
  have h4: "validateNode ?R (examplePipeline\<lparr>connections := [(nodeName responseNode, [])]\<rparr>)
              responseNode = OK"
    and h4': "validateNode ?L (examplePipeline\<lparr>connections := [(nodeName responseNode, [])]\<rparr>)
              responseNode = OK"
    by (simp_all add: validateNode_def responseNode_def)
  have h5: "?R (modelName nodeA) 0 = Inl MODEL_VERSION_MISSING"
    and h6: "?L (modelName nodeA) 0 = Inr (instanceX 1 AVAILABLE fixedConfig)"
    and h7: "?L (modelName nodeA) 7 = Inl MODEL_VERSION_MISSING"
    by (simp_all add: example_defs lookup_defs)
  have b: "validateBindings responseNode (nodeInputsOf ?L responseNode) nodeA
             (outputsInfo (instanceX 1 AVAILABLE fixedConfig)) [(''faces'', ''response_tensor'')] = OK"
    by (simp add: example_defs)
  from source_model_resolved_at_default_version [OF h1 h2 h3 h4] h5
  have r1: "validateNode ?R examplePipeline responseNode = MODEL_MISSING"
    by simp
  from source_model_resolved_at_default_version [OF h1 h2 h3 h4', of "\<lambda>n. Some 7" "\<lambda>n v. ?L n 0"] h6 b h4'
  have r2: "validateNode ?L examplePipeline responseNode = OK"
    and r3: "validateNode ?L
        (examplePipeline\<lparr>nodeInfos := map (\<lambda>n. n\<lparr>modelVersion := Some 7\<rparr>)
                                          (nodeInfos examplePipeline)\<rparr>) responseNode = OK"
    and r4: "validateNode (\<lambda>n v. ?L n 0) examplePipeline responseNode = OK"
    by (simp_all add: responseNode_def value_or_def)
  from h1 h2 h3 h4 h5 r1 h4' h6 h7 r2 r3 r4 show ?thesis
    by blast
qed

text \<open>
  C3. The failing input: on the edge from the DL node A to the response node, the second
  binding names \<open>unknown\<close>, which is neither an alias of A nor an output of X. Validation
  accepts the definition: the loop over the bindings is left after the first binding when
  the dependant node is not a DL node. The same bindings on an edge into the DL node B are
  rejected with \<open>INVALID_MISSING_OUTPUT\<close>.
\<close>

theorem later_binding_to_exit_not_validated:
  "outputNameAliases nodeA ''unknown'' = None
   \<and> map_of (outputsInfo (instanceX 1 AVAILABLE fixedConfig)) ''unknown'' = None
   \<and> getModelInstance exampleManager (modelName nodeA) 0 = Inr (instanceX 1 AVAILABLE fixedConfig)
   \<and> validateNodes (getModelInstance exampleManager) lateUnknownToExitPipeline = OK
   \<and> validateForCycles lateUnknownToExitPipeline = OK
   \<and> validateNodes (getModelInstance exampleManager) lateUnknownToModelPipeline
       = INVALID_MISSING_OUTPUT"
  by (simp add: validateNodes_def validateNode_def validateForCycles_def cyclesLoop.simps
        connectionsOf_def example_defs lookup_defs)

section \<open>The order of the checks\<close>





lemma PipelineDefinition_eta:
  "\<lparr>pipelineName = pipelineName d, nodeInfos = nodeInfos d, connections = connections d\<rparr> = d"
  by (cases d) simp

lemma createDefinition_status:
  "fst (createDefinition definitions (pipelineName d) (nodeInfos d) (connections d) lookup) =
     (if definitionExists definitions (pipelineName d) then PIPELINE_DEFINITION_ALREADY_EXIST
      else if validateNodes lookup d \<noteq> OK then validateNodes lookup d
      else validateForCycles d)"
  by (simp add: createDefinition_def Let_def PipelineDefinition_eta)





section \<open>Properties of create\<close>

lemma validateConnections_OK_sources:
  "validateConnections lookup infos node ins cs = OK \<Longrightarrow>
   fst ` set cs \<subseteq> nodeName ` set infos"
proof (induction cs)
  case Nil
  then show ?case by simp
next
  case (Cons c cs)
  obtain s ps where c: "c = (s, ps)" by (cases c)
  from Cons.prems c obtain sni where f: "find (\<lambda>nodeInfo. nodeName nodeInfo = s) infos = Some sni"
    by (auto split: option.splits)
  then have "s \<in> nodeName ` set infos"
    by (auto simp: find_Some_iff)
  moreover have "validateConnections lookup infos node ins cs = OK"
    using Cons.prems c f by (auto simp: Let_def split: if_splits sum.splits)
  ultimately show ?case
    using Cons.IH c by simp
qed

lemma validateNode_OK_sources:
  "validateNode lookup d node = OK \<Longrightarrow>
   fst ` set (connectionsOf d (nodeName node)) \<subseteq> nodeName ` set (nodeInfos d)"
  by (auto simp: validateNode_def split: if_splits sum.splits
           dest!: validateConnections_OK_sources)

lemma validateNodesLoop_OK_unique:
  "validateNodesLoop g d ef xf ns = OK \<Longrightarrow> n \<in> set ns \<Longrightarrow>
   length (filter (\<lambda>m. nodeName m = nodeName n) (nodeInfos d)) \<le> 1"
  by (induction ns arbitrary: ef xf) (auto simp: Let_def split: if_splits)

lemma distinct_map_if_unique:
  "\<forall>x \<in> set xs. length (filter (\<lambda>y. f y = f x) xs) \<le> 1 \<Longrightarrow> distinct (map f xs)"
proof (induction xs)
  case Nil
  then show ?case by simp
next
  case (Cons a xs)
  from Cons.prems have "length (filter (\<lambda>y. f y = f a) (a # xs)) \<le> 1" by simp
  then have "filter (\<lambda>y. f y = f a) xs = []" by simp
  then have fresh: "f a \<notin> f ` set xs"
    by (auto simp: filter_empty_conv)
  have "\<forall>x \<in> set xs. length (filter (\<lambda>y. f y = f x) xs) \<le> 1"
  proof
    fix x assume x: "x \<in> set xs"
    with Cons.prems have "length (filter (\<lambda>y. f y = f x) (a # xs)) \<le> 1" by simp
    then show "length (filter (\<lambda>y. f y = f x) xs) \<le> 1"
      by (simp split: if_splits)
  qed
  with Cons.IH fresh show ?case by simp
qed

lemma validateNodes_OK_distinct:
  assumes "validateNodes g d = OK"
  shows "distinct (map nodeName (nodeInfos d))"
proof -
  have "\<forall>n \<in> set (nodeInfos d). length (filter (\<lambda>m. nodeName m = nodeName n) (nodeInfos d)) \<le> 1"
    using assms validateNodesLoop_OK_unique unfolding validateNodes_def by blast
  then show ?thesis
    by (rule distinct_map_if_unique)
qed

lemma validateNodesLoop_OK_flags:
  "validateNodesLoop g d ef xf ns = OK \<Longrightarrow>
   (ef \<or> ENTRY \<in> kind ` set ns) \<and> (xf \<or> EXIT \<in> kind ` set ns)"
proof (induction ns arbitrary: ef xf)
  case Nil
  then show ?case by (simp split: if_splits)
next
  case (Cons a ns)
  from Cons.prems have "validateNodesLoop g d (ef \<or> kind a = ENTRY) (xf \<or> kind a = EXIT) ns = OK"
    by (simp add: Let_def split: if_splits)
  from Cons.IH [OF this] show ?case by auto
qed

lemma validateNodes_OK_entry_exit:
  "validateNodes g d = OK \<Longrightarrow>
   ENTRY \<in> kind ` set (nodeInfos d) \<and> EXIT \<in> kind ` set (nodeInfos d)"
  unfolding validateNodes_def by (drule validateNodesLoop_OK_flags) simp


lemma createNodes_result:
  assumes "distinct (map nodeName infos)" and "nodeName ` set infos \<inter> dom (nodes st) = {}"
  shows "dom (nodes (createNodes request response manager infos st))
           = dom (nodes st) \<union> nodeName ` set infos
         \<and> entry (createNodes request response manager infos st)
           = (if ENTRY \<in> kind ` set infos then pointer_to (EntryNode request) else entry st)
         \<and> exit (createNodes request response manager infos st)
           = (if EXIT \<in> kind ` set infos then pointer_to (ExitNode response) else exit st)"
  using assms
proof (induction infos arbitrary: st)
  case Nil
  then show ?case by simp
next
  case (Cons info infos)
  have fresh: "nodes st (nodeName info) = None"
    using Cons.prems(2) by auto
  let ?st' = "(case kind info of
          ENTRY \<Rightarrow>
            (let node = EntryNode request;
                 ins = insertNode (nodes st) (nodeName info) node
             in st\<lparr>nodes := fst ins, entry := (if snd ins then pointer_to node else dangling)\<rparr>)
        | DL \<Rightarrow>
            st\<lparr>nodes := fst (insertNode (nodes st) (nodeName info)
                    (DLNode (nodeName info) (modelName info) (modelVersion info) manager
                       (outputNameAliases info)))\<rparr>
        | EXIT \<Rightarrow>
            (let node = ExitNode response;
                 ins = insertNode (nodes st) (nodeName info) node
             in st\<lparr>nodes := fst ins, exit := (if snd ins then pointer_to node else dangling)\<rparr>))"
  have d: "dom (nodes ?st') = insert (nodeName info) (dom (nodes st))"
    and e: "entry ?st' = (if kind info = ENTRY then pointer_to (EntryNode request) else entry st)"
    and x: "exit ?st' = (if kind info = EXIT then pointer_to (ExitNode response) else exit st)"
    using fresh by (cases "kind info"; simp add: insertNode_def Let_def)+
  have "distinct (map nodeName infos)" and "nodeName ` set infos \<inter> dom (nodes ?st') = {}"
    using Cons.prems d by auto
  from Cons.IH [OF this]
  have IH: "dom (nodes (createNodes request response manager infos ?st'))
           = insert (nodeName info) (dom (nodes st)) \<union> nodeName ` set infos
         \<and> entry (createNodes request response manager infos ?st')
           = (if ENTRY \<in> kind ` set infos then pointer_to (EntryNode request)
              else if kind info = ENTRY then pointer_to (EntryNode request) else entry st)
         \<and> exit (createNodes request response manager infos ?st')
           = (if EXIT \<in> kind ` set infos then pointer_to (ExitNode response)
              else if kind info = EXIT then pointer_to (ExitNode response) else exit st)"
    unfolding d e x .
  have step: "createNodes request response manager (info # infos) st
                = createNodes request response manager infos ?st'"
    by simp
  show ?case
    unfolding step using IH by auto
qed


lemma connectDependencies_returns:
  "fst ` set deps \<subseteq> dom ns \<Longrightarrow> \<exists>acc'. connectDependencies ns dependant deps acc = Inr acc'"
  by (induction deps arbitrary: acc) auto

lemma connectAll_returns:
  "\<forall>c \<in> set conns. fst c \<in> dom ns \<and> fst ` set (snd c) \<subseteq> dom ns \<Longrightarrow>
   \<exists>acc'. connectAll ns conns acc = Inr acc'"
proof (induction conns arbitrary: acc)
  case Nil
  then show ?case by simp
next
  case (Cons c conns)
  obtain k deps where c: "c = (k, deps)" by (cases c)
  from Cons.prems c have k: "ns k \<noteq> None" and deps: "fst ` set deps \<subseteq> dom ns"
    by auto
  from connectDependencies_returns [OF deps]
  obtain acc' where "connectDependencies ns k deps acc = Inr acc'" by blast
  moreover have "\<forall>c \<in> set conns. fst c \<in> dom ns \<and> fst ` set (snd c) \<subseteq> dom ns"
    using Cons.prems by simp
  from Cons.IH [OF this, of acc'] obtain acc'' where "connectAll ns conns acc' = Inr acc''"
    by blast
  ultimately show ?case
    using k c by auto
qed

lemma connectionsOf_distinct:
  "distinct (map fst (connections d)) \<Longrightarrow> (k, deps) \<in> set (connections d) \<Longrightarrow>
   connectionsOf d k = deps"
  by (simp add: connectionsOf_def)

text \<open>
  C1 (as amended). \<open>create\<close> does not consult the manager and acquires no guard. For a
  definition that \<open>validateNodes\<close> accepted (against whatever lookup), whose connections
  are keyed by distinct names of its nodes, \<open>create\<close> returns \<open>OK\<close> for every request,
  response and manager, and the pipeline holds a node for every NodeInfo.
\<close>

theorem create_returns_OK_whatever_the_manager:
  assumes "validateNodes lookup d = OK"
    and "distinct (map fst (connections d))"
    and "fst ` set (connections d) \<subseteq> nodeName ` set (nodeInfos d)"
  shows "\<exists>p. create d request response manager = Inr (OK, p)
             \<and> dom (pipelineNodes p) = nodeName ` set (nodeInfos d)"
proof -
  let ?st = "createNodes request response manager (nodeInfos d)
               \<lparr>nodes = Map.empty, entry = nullptr, exit = nullptr\<rparr>"
  have "distinct (map nodeName (nodeInfos d))"
    using assms(1) by (rule validateNodes_OK_distinct)
  from createNodes_result [OF this, of "\<lparr>nodes = Map.empty, entry = nullptr, exit = nullptr\<rparr>"
                             request response manager]
    validateNodes_OK_entry_exit [OF assms(1)]
  have dom: "dom (nodes ?st) = nodeName ` set (nodeInfos d)"
    and en: "entry ?st = pointer_to (EntryNode request)"
    and ex: "exit ?st = pointer_to (ExitNode response)"
    by simp_all
  have "\<forall>c \<in> set (connections d). fst c \<in> dom (nodes ?st) \<and> fst ` set (snd c) \<subseteq> dom (nodes ?st)"
  proof
    fix c assume c: "c \<in> set (connections d)"
    obtain k deps where kd: "c = (k, deps)" by (cases c)
    from c kd assms(3) obtain n where n: "n \<in> set (nodeInfos d)" "nodeName n = k"
      by force
    have "validateNode lookup d n = OK"
      using assms(1) n(1) by (rule validateNodes_OK_validateNode)
    then have "fst ` set (connectionsOf d k) \<subseteq> nodeName ` set (nodeInfos d)"
      using validateNode_OK_sources n(2) by blast
    moreover have "connectionsOf d k = deps"
      using assms(2) c kd by (simp add: connectionsOf_distinct)
    ultimately show "fst c \<in> dom (nodes ?st) \<and> fst ` set (snd c) \<subseteq> dom (nodes ?st)"
      using n kd dom by auto
  qed
  from connectAll_returns [OF this]
  obtain conns where "connectAll (nodes ?st) (connections d) [] = Inr conns" by blast
  then show ?thesis
    using dom en ex by (simp add: create_def Let_def)
qed

theorem create_returns_OK_whatever_the_manager_witness:
  "validateNodes (getModelInstance exampleManager) pinnedPipeline = OK
   \<and> distinct (map fst (connections pinnedPipeline))
   \<and> fst ` set (connections pinnedPipeline) \<subseteq> nodeName ` set (nodeInfos pinnedPipeline)
   \<and> (\<exists>p. create pinnedPipeline ''request'' ''response'' retiredManager = Inr (OK, p)
           \<and> dom (pipelineNodes p) = nodeName ` set (nodeInfos pinnedPipeline))"
proof -
  have h1: "validateNodes (getModelInstance exampleManager) pinnedPipeline = OK"
    by (simp add: validateNodes_def validateNode_def connectionsOf_def example_defs lookup_defs)
  have h2: "distinct (map fst (connections pinnedPipeline))"
    by (simp add: pinnedPipeline_def)
  have h3: "fst ` set (connections pinnedPipeline) \<subseteq> nodeName ` set (nodeInfos pinnedPipeline)"
    by (simp add: example_defs)
  from create_returns_OK_whatever_the_manager
         [OF h1 h2 h3, of "''request''" "''response''" retiredManager] h1 h2 h3
  show ?thesis by blast
qed

theorem create_after_retirement_counterexample:
  "validateNodes (getModelInstance exampleManager) pinnedPipeline = OK
   \<and> validateForCycles pinnedPipeline = OK
   \<and> getModelInstance retiredManager (modelName pinnedNodeA)
        (value_or (modelVersion pinnedNodeA) 0) = Inl MODEL_VERSION_NOT_LOADED_ANYMORE
   \<and> map_sum id fst (create pinnedPipeline ''request'' ''response'' retiredManager) = Inr OK"
  by (simp add: create_def Let_def insertNode_def validateNodes_def validateNode_def
        validateForCycles_def cyclesLoop.simps connectionsOf_def example_defs lookup_defs)

section \<open>The default version of a model\<close>

lemma fold_highest_available:
  assumes "r = fold (\<lambda>(v, versionInstance) newDefaultVersion.
                 if v > newDefaultVersion \<and> status versionInstance = AVAILABLE then v
                 else newDefaultVersion) xs (acc :: model_version_t)"
  shows "(r = acc \<or> (\<exists>inst. (r, inst) \<in> set xs \<and> status inst = AVAILABLE))
         \<and> acc \<le> r
         \<and> (\<forall>v inst. (v, inst) \<in> set xs \<and> status inst = AVAILABLE \<longrightarrow> v \<le> r)"
  using assms
proof (induction xs arbitrary: acc)
  case Nil
  then show ?case by simp
next
  case (Cons x xs)
  obtain v inst where x: "x = (v, inst)" by (cases x)
  let ?acc' = "if v > acc \<and> status inst = AVAILABLE then v else acc"
  from Cons.prems x have "r = fold (\<lambda>(v, versionInstance) newDefaultVersion.
                 if v > newDefaultVersion \<and> status versionInstance = AVAILABLE then v
                 else newDefaultVersion) xs ?acc'"
    by simp
  from Cons.IH [OF this] show ?case
    unfolding x by (auto split: if_splits)
qed

lemma updateDefaultVersion_highest:
  "defaultVersion (updateDefaultVersion m) =
     (if availableVersions m = {} then 0 else Max (availableVersions m))"
proof -
  let ?r = "defaultVersion (updateDefaultVersion m)"
  from fold_highest_available [of ?r "modelVersions m" 0]
  have mem: "?r = 0 \<or> ?r \<in> availableVersions m"
    and ub: "\<forall>v \<in> availableVersions m. v \<le> ?r"
    by (auto simp: updateDefaultVersion_def availableVersions_def)
  have fin: "finite (availableVersions m)"
  proof (rule finite_subset)
    show "availableVersions m \<subseteq> fst ` set (modelVersions m)"
      by (force simp: availableVersions_def)
  qed simp
  show ?thesis
  proof (cases "availableVersions m = {}")
    case True
    with mem show ?thesis by simp
  next
    case False
    then obtain v where v: "v \<in> availableVersions m" by blast
    have "?r \<in> availableVersions m"
    proof (cases "?r = 0")
      case True
      with ub v have "v = 0" by auto
      with v True show ?thesis by simp
    next
      case False
      with mem show ?thesis by simp
    qed
    with ub fin have "Max (availableVersions m) = ?r"
      by (intro Max_eqI) auto
    with False show ?thesis by simp
  qed
qed

lemma availableVersions_updateDefaultVersion [simp]:
  "availableVersions (updateDefaultVersion m) = availableVersions m"
  by (simp add: availableVersions_def updateDefaultVersion_def)

text \<open>
  C8. After \<open>addVersions\<close>, \<open>retireVersions\<close> or \<open>reloadVersions\<close> the default version is the
  highest version whose instance is AVAILABLE, and 0 when there is none; in that case
  (version numbers being positive) a lookup of the model without a version returns
  \<open>MODEL_VERSION_MISSING\<close>.
\<close>

theorem default_version_is_highest_available:
  assumes "m' = addVersions load versions cfg m
           \<or> m' = retireVersions versions m
           \<or> m' = reloadVersions reload versions cfg m"
  shows "getDefaultVersion m' = (if availableVersions m' = {} then 0 else Max (availableVersions m'))
         \<and> (availableVersions m' = {} \<and> 0 \<notin> fst ` set (modelVersions m')
              \<and> findModelByName manager n = Some m'
             \<longrightarrow> getDefaultVersion m' = 0
                 \<and> getModelInstance manager n 0 = Inl MODEL_VERSION_MISSING)"
proof -
  from assms obtain m0 where m': "m' = updateDefaultVersion m0"
    unfolding addVersions_def retireVersions_def reloadVersions_def by blast
  have d: "getDefaultVersion m' = (if availableVersions m' = {} then 0 else Max (availableVersions m'))"
    unfolding m' getDefaultVersion_def by (simp add: updateDefaultVersion_highest)
  moreover have "getModelInstance manager n 0 = Inl MODEL_VERSION_MISSING"
    if "availableVersions m' = {}" "0 \<notin> fst ` set (modelVersions m')"
      "findModelByName manager n = Some m'"
  proof -
    from d that(1) have "getDefaultVersion m' = 0" by simp
    moreover from that(2) have "map_of (modelVersions m') 0 = None"
      by (simp add: map_of_eq_None_iff)
    ultimately show ?thesis
      using that(3)
      by (simp add: getModelInstance_def getDefaultModelInstance_def getModelInstanceByVersion_def)
  qed
  ultimately show ?thesis by simp
qed


lemma retired_modelVersions: "modelVersions (retireVersions [1] exampleModel) = [(1, instanceX 1 END fixedConfig)]"
  by (simp add: model_defs instanceX_def)

lemma added_modelVersions: "modelVersions (addVersions loadAvailable [2, 3] fixedConfig exampleModel) =
   [(1, instanceX 1 AVAILABLE fixedConfig), (2, instanceX 2 AVAILABLE fixedConfig), (3, instanceX 3 AVAILABLE fixedConfig)]"
  by (simp add: model_defs)


lemma availableVersions_filter:
  "availableVersions m = set (map fst (filter (\<lambda>vi. status (snd vi) = AVAILABLE) (modelVersions m)))"
  by (force simp: availableVersions_def)

lemma retired_availableVersions: "availableVersions (retireVersions [1] exampleModel) = {}"
  unfolding availableVersions_filter retired_modelVersions by (simp add: instanceX_def)

lemma added_availableVersions: "availableVersions (addVersions loadAvailable [2, 3] fixedConfig exampleModel) = {1, 2, 3}"
  unfolding availableVersions_filter added_modelVersions by (simp add: instanceX_def)


theorem default_version_is_highest_available_witness:
  "availableVersions (retireVersions [1] exampleModel) = {}
   \<and> 0 \<notin> fst ` set (modelVersions (retireVersions [1] exampleModel))
   \<and> findModelByName [(''X'', retireVersions [1] exampleModel)] ''X''
       = Some (retireVersions [1] exampleModel)
   \<and> getDefaultVersion (retireVersions [1] exampleModel) = 0
   \<and> getModelInstance [(''X'', retireVersions [1] exampleModel)] ''X'' 0 = Inl MODEL_VERSION_MISSING
   \<and> availableVersions (addVersions loadAvailable [2, 3] fixedConfig exampleModel) = {1, 2, 3}
   \<and> getDefaultVersion (addVersions loadAvailable [2, 3] fixedConfig exampleModel) = 3"
proof -
  let ?r = "retireVersions [1] exampleModel"
  let ?a = "addVersions loadAvailable [2, 3] fixedConfig exampleModel"
  have h2: "0 \<notin> fst ` set (modelVersions ?r)"
    unfolding retired_modelVersions by simp
  have h3: "findModelByName [(''X'', ?r)] ''X'' = Some ?r"
    by (simp add: findModelByName_def)
  have e1: "?r = addVersions loadAvailable [1] fixedConfig exampleModel \<or> ?r = retireVersions [1] exampleModel
      \<or> ?r = reloadVersions (\<lambda>i c. i) [1] fixedConfig exampleModel"
    by (rule disjI2, rule disjI1, rule refl)
  have e2: "?a = addVersions loadAvailable [2, 3] fixedConfig exampleModel \<or> ?a = retireVersions [2, 3] exampleModel
      \<or> ?a = reloadVersions (\<lambda>i c. i) [2, 3] fixedConfig exampleModel"
    by (rule disjI1, rule refl)
  from default_version_is_highest_available [OF e1, of "[(''X'', ?r)]" "''X''"] retired_availableVersions h2 h3
  have r1: "getDefaultVersion ?r = 0"
    and r2: "getModelInstance [(''X'', ?r)] ''X'' 0 = Inl MODEL_VERSION_MISSING"
    by blast+
  have "Max {1, 2, 3 :: nat} = 3" by simp
  with default_version_is_highest_available [OF e2, of "[]" "''X''"] added_availableVersions
  have r3: "getDefaultVersion ?a = 3"
    by (simp del: Max_insert)
  from retired_availableVersions h2 h3 added_availableVersions r1 r2 r3 show ?thesis by blast
qed


section \<open>Validation against two managers\<close>

lemma getModelInstance_Inr_iff:
  "getModelInstance M n v = Inr inst \<longleftrightarrow>
     (\<exists>m. findModelByName M n = Some m
          \<and> getModelInstanceByVersion m (if v \<noteq> 0 then v else getDefaultVersion m) = Some inst
          \<and> status inst = AVAILABLE)"
proof (cases "findModelByName M n")
  case None
  then show ?thesis by (simp add: getModelInstance_def)
next
  case (Some m)
  show ?thesis
  proof (cases "getModelInstanceByVersion m (if v \<noteq> 0 then v else getDefaultVersion m)")
    case None
    with Some show ?thesis
      by (simp add: getModelInstance_def getDefaultModelInstance_def split: if_splits)
  next
    case (Some i)
    with \<open>findModelByName M n = Some m\<close> show ?thesis
      by (cases "status i") (auto simp: getModelInstance_def getDefaultModelInstance_def split: if_splits)
  qed
qed

lemma getModelInstance_superset:
  assumes "availableInstances M \<subseteq> availableInstances M'"
    and "\<And>m m'. findModelByName M n = Some m \<Longrightarrow> findModelByName M' n = Some m' \<Longrightarrow>
           getDefaultVersion m' = getDefaultVersion m"
    and "getModelInstance M n v = Inr inst"
  shows "getModelInstance M' n v = Inr inst"
proof -
  from assms(3) obtain m where m: "findModelByName M n = Some m"
    and look: "getModelInstanceByVersion m (if v \<noteq> 0 then v else getDefaultVersion m) = Some inst"
    and av: "status inst = AVAILABLE"
    unfolding getModelInstance_Inr_iff by blast
  let ?v = "if v \<noteq> 0 then v else getDefaultVersion m"
  have "(n, ?v, inst) \<in> availableInstances M"
    using m look av unfolding availableInstances_def by blast
  with assms(1) have "(n, ?v, inst) \<in> availableInstances M'" by blast
  then obtain m' where m': "findModelByName M' n = Some m'"
    and look': "getModelInstanceByVersion m' ?v = Some inst"
    unfolding availableInstances_def by blast
  from assms(2) [OF m m'] have "getDefaultVersion m' = getDefaultVersion m" .
  with m' look' av show ?thesis
    unfolding getModelInstance_Inr_iff by auto
qed


lemma validateConnections_mono:
  assumes "\<And>s i. s \<in> set infos \<Longrightarrow> kind s = DL \<Longrightarrow> g (modelName s) 0 = Inr i \<Longrightarrow>
             g' (modelName s) 0 = Inr i"
    and "validateConnections g infos node ins cs = OK"
  shows "validateConnections g' infos node ins cs = OK"
  using assms(2)
proof (induction cs)
  case Nil
  then show ?case by simp
next
  case (Cons c cs)
  obtain s ps where c: "c = (s, ps)" by (cases c)
  from Cons.prems c obtain sni where f: "find (\<lambda>nodeInfo. nodeName nodeInfo = s) infos = Some sni"
    by (auto split: option.splits)
  then have mem: "sni \<in> set infos"
    by (auto simp: find_Some_iff)
  show ?case
  proof (cases "kind sni = DL")
    case True
    with Cons.prems c f obtain i where i: "g (modelName sni) 0 = Inr i"
      by (auto split: sum.splits)
    with assms(1) mem True have i': "g' (modelName sni) 0 = Inr i" by blast
    from Cons.prems c f True i have "validateConnections g infos node ins cs = OK"
      by (auto simp: Let_def split: if_splits)
    with Cons.IH have "validateConnections g' infos node ins cs = OK" by simp
    with Cons.prems c f True i i' show ?thesis
      by (auto simp: Let_def split: if_splits)
  next
    case False
    with Cons.prems c f Cons.IH show ?thesis by simp
  qed
qed

lemma validateNode_mono:
  assumes "\<And>s v i. s \<in> set (nodeInfos d) \<Longrightarrow> kind s = DL \<Longrightarrow> g (modelName s) v = Inr i \<Longrightarrow>
             g' (modelName s) v = Inr i"
    and "node \<in> set (nodeInfos d)"
    and "validateNode g d node = OK"
  shows "validateNode g' d node = OK"
proof (cases "kind node = DL")
  case True
  with assms(3) obtain i where i: "g (modelName node) (value_or (modelVersion node) 0) = Inr i"
    by (auto simp: validateNode_def split: sum.splits)
  with assms(1,2) True have i': "g' (modelName node) (value_or (modelVersion node) 0) = Inr i"
    by blast
  from assms(3) True i have "validateConnections g (nodeInfos d) node (inputsInfo i)
      (connectionsOf d (nodeName node)) = OK"
    and "batchingMode (config i) \<noteq> AUTO"
    and "\<not> list_ex (\<lambda>s. shapeMode (snd s) = AUTO) (shapes (config i))"
    by (auto simp: validateNode_def split: if_splits)
  moreover from this(1) have "validateConnections g' (nodeInfos d) node (inputsInfo i)
      (connectionsOf d (nodeName node)) = OK"
    using assms(1) by (intro validateConnections_mono [of "nodeInfos d" g g']) blast+
  ultimately show ?thesis
    using True i' by (simp add: validateNode_def)
next
  case False
  with assms(3) have "validateConnections g (nodeInfos d) node [] (connectionsOf d (nodeName node)) = OK"
    by (simp add: validateNode_def)
  then have "validateConnections g' (nodeInfos d) node [] (connectionsOf d (nodeName node)) = OK"
    using assms(1) by (intro validateConnections_mono [of "nodeInfos d" g g']) blast+
  with False show ?thesis
    by (simp add: validateNode_def)
qed

lemma validateNodesLoop_mono:
  assumes "\<And>n. n \<in> set ns \<Longrightarrow> validateNode g d n = OK \<Longrightarrow> validateNode g' d n = OK"
    and "validateNodesLoop g d ef xf ns = OK"
  shows "validateNodesLoop g' d ef xf ns = OK"
  using assms
proof (induction ns arbitrary: ef xf)
  case Nil
  then show ?case by simp
next
  case (Cons n ns)
  from Cons.prems(2) have v: "validateNode g d n = OK"
    and rest: "validateNodesLoop g d (ef \<or> kind n = ENTRY) (xf \<or> kind n = EXIT) ns = OK"
    and u: "\<not> 1 < length (filter (\<lambda>nodeInfo. nodeName nodeInfo = nodeName n) (nodeInfos d))"
    and e: "\<not> (kind n = ENTRY \<and> ef)" and x: "\<not> (kind n = EXIT \<and> xf)"
    by (auto simp: Let_def split: if_splits)
  from Cons.prems(1) v have v': "validateNode g' d n = OK" by simp
  from Cons.IH [OF _ rest] Cons.prems(1)
  have "validateNodesLoop g' d (ef \<or> kind n = ENTRY) (xf \<or> kind n = EXIT) ns = OK" by simp
  with v' u e x show ?case
    by (auto simp: Let_def)
qed


lemma upgraded_model: "addVersions loadAvailable [2] autoBatchConfig exampleModel =
   modelX [(1, instanceX 1 AVAILABLE fixedConfig), (2, instanceX 2 AVAILABLE autoBatchConfig)] 2"
  by (simp add: model_defs instanceX_def)

lemma upgradedManager_superset: "availableInstances exampleManager \<subseteq> availableInstances upgradedManager"
  unfolding upgradedManager_def upgraded_model
  by (auto simp: availableInstances_def findModelByName_def getModelInstanceByVersion_def
        exampleManager_def managerX_def modelX_def split: if_splits)

lemma extendedManager_superset: "availableInstances exampleManager \<subseteq> availableInstances extendedManager"
  by (auto simp: availableInstances_def findModelByName_def getModelInstanceByVersion_def
        extendedManager_def exampleManager_def managerX_def modelX_def split: if_splits)


text \<open>
  C9 (as amended). A definition that \<open>createDefinition\<close> accepts against a manager is also
  accepted against a manager that holds every AVAILABLE instance of the first unchanged
  (under the same model name and version, with the same configuration and the same input
  and output tensor maps), provided every model that a DL node of the definition names
  has the same default version in both.
\<close>

theorem validation_monotone_when_defaults_unchanged:
  assumes "availableInstances M \<subseteq> availableInstances M'"
    and "\<forall>n \<in> set (nodeInfos (d :: PipelineDefinition)). kind n = DL \<longrightarrow>
           (\<forall>m m'. findModelByName M (modelName n) = Some m
                    \<and> findModelByName M' (modelName n) = Some m'
                  \<longrightarrow> getDefaultVersion m' = getDefaultVersion m)"
    and "fst (createDefinition definitions (pipelineName d) (nodeInfos d) (connections d)
                (getModelInstance M)) = OK"
  shows "fst (createDefinition definitions (pipelineName d) (nodeInfos d) (connections d)
                (getModelInstance M')) = OK"
proof -
  from assms(3) have ne: "\<not> definitionExists definitions (pipelineName d)"
    and vn: "validateNodes (getModelInstance M) d = OK"
    and vc: "validateForCycles d = OK"
    unfolding createDefinition_status by (auto split: if_splits)
  have look: "getModelInstance M' (modelName s) v = Inr i"
    if "s \<in> set (nodeInfos d)" "kind s = DL" "getModelInstance M (modelName s) v = Inr i" for s v i
    using assms(1) _ that(3)
  proof (rule getModelInstance_superset)
    fix m m'
    assume "findModelByName M (modelName s) = Some m" "findModelByName M' (modelName s) = Some m'"
    with assms(2) that(1,2) show "getDefaultVersion m' = getDefaultVersion m" by blast
  qed
  have "validateNode (getModelInstance M') d n = OK"
    if "n \<in> set (nodeInfos d)" "validateNode (getModelInstance M) d n = OK" for n
    using look that by (rule validateNode_mono)
  then have "validateNodes (getModelInstance M') d = OK"
    using vn unfolding validateNodes_def by (rule validateNodesLoop_mono)
  with ne vc show ?thesis
    unfolding createDefinition_status by simp
qed

theorem validation_monotone_when_defaults_unchanged_witness:
  "availableInstances exampleManager \<subseteq> availableInstances extendedManager
   \<and> findModelByName exampleManager ''X'' = Some exampleModel
   \<and> findModelByName extendedManager ''X'' = Some exampleModel
   \<and> fst (createDefinition Map.empty (pipelineName examplePipeline) (nodeInfos examplePipeline)
            (connections examplePipeline) (getModelInstance exampleManager)) = OK
   \<and> fst (createDefinition Map.empty (pipelineName examplePipeline) (nodeInfos examplePipeline)
            (connections examplePipeline) (getModelInstance extendedManager)) = OK"
proof -
  have h1: "availableInstances exampleManager \<subseteq> availableInstances extendedManager"
    by (rule extendedManager_superset)
  have f1: "findModelByName exampleManager ''X'' = Some exampleModel"
    and f2: "findModelByName extendedManager ''X'' = Some exampleModel"
    by (simp_all add: findModelByName_def extendedManager_def exampleManager_def managerX_def
          exampleModel_def)
  have h2: "\<forall>n \<in> set (nodeInfos examplePipeline). kind n = DL \<longrightarrow>
           (\<forall>m m'. findModelByName exampleManager (modelName n) = Some m
                    \<and> findModelByName extendedManager (modelName n) = Some m'
                  \<longrightarrow> getDefaultVersion m' = getDefaultVersion m)"
    using f1 f2 by (simp add: examplePipeline_def requestNode_def responseNode_def nodeA_def)
  have h3: "fst (createDefinition Map.empty (pipelineName examplePipeline) (nodeInfos examplePipeline)
              (connections examplePipeline) (getModelInstance exampleManager)) = OK"
    by (simp add: createDefinition_def definitionExists_def validateNodes_def validateNode_def
          validateForCycles_def cyclesLoop.simps connectionsOf_def example_defs lookup_defs)
  from validation_monotone_when_defaults_unchanged [OF h1 h2 h3] h1 f1 f2 h3
  show ?thesis by blast
qed

theorem validation_not_monotone_counterexample:
  "availableInstances exampleManager \<subseteq> availableInstances upgradedManager
   \<and> fst (createDefinition Map.empty (pipelineName examplePipeline) (nodeInfos examplePipeline)
            (connections examplePipeline) (getModelInstance exampleManager)) = OK
   \<and> fst (createDefinition Map.empty (pipelineName examplePipeline) (nodeInfos examplePipeline)
            (connections examplePipeline) (getModelInstance upgradedManager))
       = FORBIDDEN_MODEL_DYNAMIC_PARAMETER"
proof -
  have "fst (createDefinition Map.empty (pipelineName examplePipeline) (nodeInfos examplePipeline)
            (connections examplePipeline) (getModelInstance exampleManager)) = OK"
    by (simp add: createDefinition_def definitionExists_def validateNodes_def validateNode_def
          validateForCycles_def cyclesLoop.simps connectionsOf_def example_defs lookup_defs)
  moreover have "fst (createDefinition Map.empty (pipelineName examplePipeline) (nodeInfos examplePipeline)
            (connections examplePipeline) (getModelInstance upgradedManager))
       = FORBIDDEN_MODEL_DYNAMIC_PARAMETER"
    unfolding upgradedManager_def upgraded_model
    by (simp add: createDefinition_def definitionExists_def validateNodes_def validateNode_def
          connectionsOf_def example_defs lookup_defs)
  ultimately show ?thesis
    using upgradedManager_superset by blast
qed

section \<open>Correctness of validateForCycles\<close>

lemma scanConnected_CycleFound:
  "scanConnected c visited parents xs = CycleFound \<Longrightarrow>
     \<exists>s \<in> fst ` set xs. s = c \<or> s \<in> set parents"
  by (induction xs) (auto split: if_splits)

lemma scanConnected_UnvisitedFound:
  "scanConnected c visited parents xs = UnvisitedFound s \<Longrightarrow>
     s \<in> fst ` set xs \<and> s \<notin> set visited \<and> s \<noteq> c"
  by (induction xs) (auto split: if_splits)

lemma scanConnected_NoneLeft:
  "scanConnected c visited parents xs = NoneLeft \<Longrightarrow>
     \<forall>s \<in> fst ` set xs. s \<noteq> c \<and> s \<in> set visited \<and> s \<notin> set parents"
  by (induction xs) (fastforce split: if_splits)+

lemma successively_reaches_last:
  "successively (\<lambda>a b. (a, b) \<in> E) (xs @ [c]) \<Longrightarrow> p \<in> set xs \<Longrightarrow> (p, c) \<in> E\<^sup>+"
proof (induction xs arbitrary: p)
  case Nil
  then show ?case by simp
next
  case (Cons a xs)
  show ?case
  proof (cases xs)
    case Nil
    with Cons.prems show ?thesis by auto
  next
    case xs: (Cons b ys)
    with Cons.prems(1) have ab: "(a, b) \<in> E"
      and rest: "successively (\<lambda>a b. (a, b) \<in> E) (xs @ [c])"
      by simp_all
    have "(b, c) \<in> E\<^sup>+"
      using Cons.IH [OF rest, of b] xs by simp
    with ab have "(a, c) \<in> E\<^sup>+" by (rule trancl_into_trancl2)
    moreover have "(p, c) \<in> E\<^sup>+" if "p \<in> set xs"
      using Cons.IH [OF rest that] .
    ultimately show ?thesis
      using Cons.prems(2) by auto
  qed
qed

lemma closed_no_return:
  assumes "E `` A \<subseteq> A" and "E `` {c} \<subseteq> A" and "c \<notin> A"
  shows "(c, c) \<notin> E\<^sup>+"
proof
  assume "(c, c) \<in> E\<^sup>+"
  then obtain z where "(c, z) \<in> E" and zc: "(z, c) \<in> E\<^sup>*"
    by (blast dest: tranclD)
  with assms(2) have "z \<in> A" by blast
  with zc have "c \<in> E\<^sup>* `` A" by blast
  with Image_closed_trancl [OF assms(1)] assms(3) show False by simp
qed

lemma closed_insert:
  assumes "E `` A \<subseteq> A" and "\<forall>b \<in> A. (b, b) \<notin> E\<^sup>+" and "E `` {c} \<subseteq> A - {c}"
  shows "E `` (insert c A) \<subseteq> insert c A \<and> (\<forall>b \<in> insert c A. (b, b) \<notin> E\<^sup>+)"
proof (cases "c \<in> A")
  case True
  then have "insert c A = A" by auto
  with assms show ?thesis by simp
next
  case False
  from assms(3) have "E `` {c} \<subseteq> A" by blast
  from closed_no_return [OF assms(1) this False] assms show ?thesis by blast
qed


lemma dependencyEdges_iff:
  "(a, b) \<in> dependencyEdges d \<longleftrightarrow> b \<in> fst ` set (connectionsOf d a)"
  by (simp add: dependencyEdges_def)

lemma cyclesLoop_correct:
  "cyclesInv d x visited parentNodes current \<Longrightarrow>
   cyclesLoop d visited parentNodes current = cyclesSpec d x"
proof (induction d visited parentNodes current rule: cyclesLoop.induct)
  case (1 d visited parentNodes current)
  let ?E = "dependencyEdges d"
  let ?black = "set visited - set parentNodes - {current}"
  from "1.prems" have dist: "distinct visited"
    and par: "set parentNodes \<subseteq> set visited" and cur: "current \<in> set visited"
    and reach: "set visited \<subseteq> ?E\<^sup>* `` {x}"
    and hd: "hd (parentNodes @ [current]) = x"
    and path: "successively (\<lambda>a b. (a, b) \<in> ?E) (parentNodes @ [current])"
    and closed: "?E `` ?black \<subseteq> ?black"
    and acyc: "\<forall>b \<in> ?black. (b, b) \<notin> ?E\<^sup>+"
    unfolding cyclesInv_def by simp_all
  show ?case
  proof (cases "scanConnected current visited parentNodes (connectionsOf d current)")
    case CycleFound
    from scanConnected_CycleFound [OF this]
    obtain s where s: "(current, s) \<in> ?E" "s = current \<or> s \<in> set parentNodes"
      unfolding dependencyEdges_iff by blast
    have "(current, current) \<in> ?E\<^sup>+"
    proof (cases "s = current")
      case True
      with s(1) show ?thesis by auto
    next
      case False
      with s(2) have "s \<in> set parentNodes" by simp
      from successively_reaches_last [OF path this] have "(s, current) \<in> ?E\<^sup>+" .
      with s(1) show ?thesis by (rule trancl_into_trancl2)
    qed
    moreover have "(x, current) \<in> ?E\<^sup>*"
      using reach cur by blast
    ultimately have "cyclesSpec d x = PIPELINE_CYCLE_FOUND"
      unfolding cyclesSpec_def by auto
    moreover have "cyclesLoop d visited parentNodes current = PIPELINE_CYCLE_FOUND"
      using CycleFound by (subst cyclesLoop.simps) simp
    ultimately show ?thesis by simp
  next
    case (UnvisitedFound s)
    from scanConnected_UnvisitedFound [OF this]
    have e: "(current, s) \<in> ?E" and fresh: "s \<notin> set visited"
      unfolding dependencyEdges_iff by blast+
    have inv': "cyclesInv d x (visited @ [s]) (parentNodes @ [current]) s"
      unfolding cyclesInv_def
    proof (intro conjI)
      show "distinct (visited @ [s])"
        using dist fresh by simp
      show "set (parentNodes @ [current]) \<subseteq> set (visited @ [s])"
        using par cur by auto
      show "s \<in> set (visited @ [s])"
        by simp
      have "(x, current) \<in> ?E\<^sup>*"
        using reach cur by blast
      with e have "(x, s) \<in> ?E\<^sup>*"
        by (rule rtrancl_into_rtrancl [rotated])
      then show "set (visited @ [s]) \<subseteq> ?E\<^sup>* `` {x}"
        using reach by auto
      show "hd ((parentNodes @ [current]) @ [s]) = x"
        using hd by (cases parentNodes) simp_all
      show "successively (\<lambda>a b. (a, b) \<in> ?E) ((parentNodes @ [current]) @ [s])"
        using path e by (simp add: successively_append_iff)
      have eq: "set (visited @ [s]) - set (parentNodes @ [current]) - {s} = ?black"
        using fresh by auto
      show "?E `` (set (visited @ [s]) - set (parentNodes @ [current]) - {s})
              \<subseteq> set (visited @ [s]) - set (parentNodes @ [current]) - {s}"
        unfolding eq by (rule closed)
      show "\<forall>b \<in> set (visited @ [s]) - set (parentNodes @ [current]) - {s}. (b, b) \<notin> ?E\<^sup>+"
        unfolding eq by (rule acyc)
    qed
    have "cyclesLoop d visited parentNodes current
            = cyclesLoop d (visited @ [s]) (parentNodes @ [current]) s"
      using UnvisitedFound by (subst cyclesLoop.simps) simp
    also have "\<dots> = cyclesSpec d x"
      using UnvisitedFound inv' by (rule "1.IH"(1))
    finally show ?thesis .
  next
    case NoneLeft
    from scanConnected_NoneLeft [OF this]
    have "?E `` {current} \<subseteq> ?black - {current}"
      unfolding dependencyEdges_def by auto
    from closed_insert [OF closed acyc this]
    have closed1: "?E `` insert current ?black \<subseteq> insert current ?black"
      and acyc1: "\<forall>b \<in> insert current ?black. (b, b) \<notin> ?E\<^sup>+"
      by simp_all
    show ?thesis
    proof (cases "parentNodes = []")
      case True
      then have x: "current = x"
        using hd by simp
      have vis_eq: "insert current ?black = set visited"
        using True cur by auto
      have "?E\<^sup>* `` set visited = set visited"
        using closed1 unfolding vis_eq by (rule Image_closed_trancl)
      then have "?E\<^sup>* `` {x} \<subseteq> set visited"
        using cur x by blast
      with reach have R: "?E\<^sup>* `` {x} = set visited"
        by blast
      have nocycle: "\<not> (\<exists>n. (x, n) \<in> ?E\<^sup>* \<and> (n, n) \<in> ?E\<^sup>+)"
        using acyc1 R unfolding vis_eq by blast
      have "card (?E\<^sup>* `` {x}) = length visited"
        using R dist by (simp add: distinct_card)
      then have "cyclesSpec d x =
          (if length visited \<noteq> length (nodeInfos d) then PIPELINE_CONTAINS_UNCONNECTED_NODES
           else OK)"
        using nocycle unfolding cyclesSpec_def by simp
      moreover have "cyclesLoop d visited parentNodes current =
          (if length visited \<noteq> length (nodeInfos d) then PIPELINE_CONTAINS_UNCONNECTED_NODES
           else OK)"
        using NoneLeft True by (subst cyclesLoop.simps) simp
      ultimately show ?thesis by simp
    next
      case False
      have bl: "butlast parentNodes @ [last parentNodes] = parentNodes"
        using False by simp
      have inv': "cyclesInv d x visited (butlast parentNodes) (last parentNodes)"
        unfolding cyclesInv_def
      proof (intro conjI)
        show "distinct visited"
          by (rule dist)
        show "set (butlast parentNodes) \<subseteq> set visited"
          using par by (auto dest: in_set_butlastD)
        show "last parentNodes \<in> set visited"
          using False par by auto
        show "set visited \<subseteq> ?E\<^sup>* `` {x}"
          by (rule reach)
        show "hd (butlast parentNodes @ [last parentNodes]) = x"
          unfolding bl using hd False by (cases parentNodes) simp_all
        show "successively (\<lambda>a b. (a, b) \<in> ?E) (butlast parentNodes @ [last parentNodes])"
          unfolding bl using path by (simp add: successively_append_iff)
        have "set (butlast parentNodes @ [last parentNodes]) = set parentNodes"
          unfolding bl ..
        then have eq: "set visited - set (butlast parentNodes) - {last parentNodes}
                         = set visited - set parentNodes"
          by auto
        have alt: "set visited - set parentNodes = ?black
                   \<or> set visited - set parentNodes = insert current ?black"
          using cur by auto
        show "?E `` (set visited - set (butlast parentNodes) - {last parentNodes})
                \<subseteq> set visited - set (butlast parentNodes) - {last parentNodes}"
          unfolding eq using alt closed closed1 by metis
        show "\<forall>b \<in> set visited - set (butlast parentNodes) - {last parentNodes}. (b, b) \<notin> ?E\<^sup>+"
          unfolding eq using alt acyc acyc1 by metis
      qed
      have "cyclesLoop d visited parentNodes current
              = cyclesLoop d visited (butlast parentNodes) (last parentNodes)"
        using NoneLeft False by (subst cyclesLoop.simps) simp
      also have "\<dots> = cyclesSpec d x"
        using NoneLeft _ inv' by (rule "1.IH"(2)) (use False in simp)
      finally show ?thesis .
    qed
  qed
qed


lemma validateForCycles_cyclesSpec:
  "validateForCycles d =
     (case find (\<lambda>nodeInfo. kind nodeInfo = EXIT) (nodeInfos d) of
        None \<Rightarrow> PIPELINE_MISSING_ENTRY_OR_EXIT
      | Some itr \<Rightarrow> cyclesSpec d (nodeName itr))"
proof (cases "find (\<lambda>nodeInfo. kind nodeInfo = EXIT) (nodeInfos d)")
  case None
  then show ?thesis by (simp add: validateForCycles_def)
next
  case (Some itr)
  have "cyclesInv d (nodeName itr) [nodeName itr] [] (nodeName itr)"
    by (simp add: cyclesInv_def)
  then have "cyclesLoop d [nodeName itr] [] (nodeName itr) = cyclesSpec d (nodeName itr)"
    by (rule cyclesLoop_correct)
  with Some show ?thesis by (simp add: validateForCycles_def)
qed

text \<open>What \<open>validateNodes\<close> has established when \<open>validateForCycles\<close> is called.\<close>

lemma validateNodes_OK_wellformed:
  assumes "validateNodes lookup d = OK"
  shows "distinct (map nodeName (nodeInfos d))"
    and "\<exists>exitNode. find (\<lambda>nodeInfo. kind nodeInfo = EXIT) (nodeInfos d) = Some exitNode"
    and "\<forall>n \<in> set (nodeInfos d).
           fst ` set (connectionsOf d (nodeName n)) \<subseteq> nodeName ` set (nodeInfos d)"
proof -
  show "distinct (map nodeName (nodeInfos d))"
    using assms by (rule validateNodes_OK_distinct)
  from validateNodes_OK_entry_exit [OF assms]
  have "find (\<lambda>nodeInfo. kind nodeInfo = EXIT) (nodeInfos d) \<noteq> None"
    by (auto simp: find_None_iff)
  then show "\<exists>exitNode. find (\<lambda>nodeInfo. kind nodeInfo = EXIT) (nodeInfos d) = Some exitNode"
    by blast
  show "\<forall>n \<in> set (nodeInfos d).
           fst ` set (connectionsOf d (nodeName n)) \<subseteq> nodeName ` set (nodeInfos d)"
    using validateNodes_OK_validateNode [OF assms] validateNode_OK_sources by blast
qed

text \<open>
  C2 (as amended). For a definition with an Exit node, distinct node names and connections
  that name nodes only (what \<open>validateNodes\<close> has established), \<open>validateForCycles\<close> returns
  \<open>PIPELINE_CYCLE_FOUND\<close> iff a node that can be reached from the Exit node along
  dependency edges lies on a cycle (a self-loop included); otherwise
  \<open>PIPELINE_CONTAINS_UNCONNECTED_NODES\<close> iff some node is not reached from the Exit node;
  otherwise \<open>OK\<close>. A path from the Entry node is not asked for.
\<close>

theorem validateForCycles_outcome:
  assumes "distinct (map nodeName (nodeInfos d))"
    and "find (\<lambda>nodeInfo. kind nodeInfo = EXIT) (nodeInfos d) = Some exitNode"
    and "\<forall>n \<in> set (nodeInfos d).
           fst ` set (connectionsOf d (nodeName n)) \<subseteq> nodeName ` set (nodeInfos d)"
  shows "validateForCycles d =
     (if \<exists>n. (nodeName exitNode, n) \<in> (dependencyEdges d)\<^sup>* \<and> (n, n) \<in> (dependencyEdges d)\<^sup>+
      then PIPELINE_CYCLE_FOUND
      else if \<exists>n \<in> set (nodeInfos d). (nodeName exitNode, nodeName n) \<notin> (dependencyEdges d)\<^sup>*
      then PIPELINE_CONTAINS_UNCONNECTED_NODES
      else OK)"
proof -
  let ?E = "dependencyEdges d"
  let ?names = "nodeName ` set (nodeInfos d)"
  let ?x = "nodeName exitNode"
  let ?R = "?E\<^sup>* `` {?x}"
  have "exitNode \<in> set (nodeInfos d)"
    using assms(2) by (auto simp: find_Some_iff)
  then have x: "?x \<in> ?names"
    by (rule imageI)
  have "?E `` ?names \<subseteq> ?names"
  proof
    fix b assume "b \<in> ?E `` ?names"
    then obtain a where "a \<in> ?names" and ab: "(a, b) \<in> ?E" by blast
    then obtain n where n: "n \<in> set (nodeInfos d)" and "a = nodeName n" by blast
    with ab have "b \<in> fst ` set (connectionsOf d (nodeName n))"
      by (simp add: dependencyEdges_iff)
    with assms(3) n show "b \<in> ?names" by blast
  qed
  then have "?E\<^sup>* `` ?names = ?names"
    by (rule Image_closed_trancl)
  with x have sub: "?R \<subseteq> ?names"
    by blast
  have card_names: "card ?names = length (nodeInfos d)"
    using assms(1) distinct_card [of "map nodeName (nodeInfos d)"] by simp
  have fin: "finite ?names"
    by simp
  have "card ?R = length (nodeInfos d) \<longleftrightarrow> ?R = ?names"
  proof
    assume "card ?R = length (nodeInfos d)"
    with card_names have "card ?R = card ?names" by simp
    with fin sub show "?R = ?names" by (rule card_subset_eq)
  next
    assume "?R = ?names"
    with card_names show "card ?R = length (nodeInfos d)" by simp
  qed
  moreover have "?R = ?names \<longleftrightarrow> (\<forall>n \<in> set (nodeInfos d). (?x, nodeName n) \<in> ?E\<^sup>*)"
  proof
    assume "?R = ?names"
    then have "?names \<subseteq> ?R" by simp
    then show "\<forall>n \<in> set (nodeInfos d). (?x, nodeName n) \<in> ?E\<^sup>*" by blast
  next
    assume "\<forall>n \<in> set (nodeInfos d). (?x, nodeName n) \<in> ?E\<^sup>*"
    then have "?names \<subseteq> ?R" by blast
    with sub show "?R = ?names" by (rule subset_antisym)
  qed
  ultimately have "card ?R \<noteq> length (nodeInfos d)
      \<longleftrightarrow> (\<exists>n \<in> set (nodeInfos d). (?x, nodeName n) \<notin> ?E\<^sup>*)"
    by blast
  then show ?thesis
    unfolding validateForCycles_cyclesSpec assms(2) cyclesSpec_def by simp
qed


theorem validateForCycles_outcome_witness:
  "distinct (map nodeName (nodeInfos cyclePipeline))
   \<and> find (\<lambda>nodeInfo. kind nodeInfo = EXIT) (nodeInfos cyclePipeline) = Some responseNode
   \<and> fst ` set (connectionsOf cyclePipeline ''request'') \<subseteq> nodeName ` set (nodeInfos cyclePipeline)
   \<and> fst ` set (connectionsOf cyclePipeline ''A'') \<subseteq> nodeName ` set (nodeInfos cyclePipeline)
   \<and> fst ` set (connectionsOf cyclePipeline ''B'') \<subseteq> nodeName ` set (nodeInfos cyclePipeline)
   \<and> fst ` set (connectionsOf cyclePipeline ''response'') \<subseteq> nodeName ` set (nodeInfos cyclePipeline)
   \<and> (nodeName responseNode, ''B'') \<in> (dependencyEdges cyclePipeline)\<^sup>*
   \<and> (''B'', ''B'') \<in> (dependencyEdges cyclePipeline)\<^sup>+
   \<and> validateForCycles cyclePipeline = PIPELINE_CYCLE_FOUND"
proof -
  have h1: "distinct (map nodeName (nodeInfos cyclePipeline))"
    by (simp add: example_defs)
  have h2: "find (\<lambda>nodeInfo. kind nodeInfo = EXIT) (nodeInfos cyclePipeline) = Some responseNode"
    by (simp add: example_defs)
  have c1: "fst ` set (connectionsOf cyclePipeline ''request'') \<subseteq> nodeName ` set (nodeInfos cyclePipeline)"
    and c2: "fst ` set (connectionsOf cyclePipeline ''A'') \<subseteq> nodeName ` set (nodeInfos cyclePipeline)"
    and c3: "fst ` set (connectionsOf cyclePipeline ''B'') \<subseteq> nodeName ` set (nodeInfos cyclePipeline)"
    and c4: "fst ` set (connectionsOf cyclePipeline ''response'') \<subseteq> nodeName ` set (nodeInfos cyclePipeline)"
    by (auto simp: connectionsOf_def example_defs)
  have h3: "\<forall>n \<in> set (nodeInfos cyclePipeline).
           fst ` set (connectionsOf cyclePipeline (nodeName n)) \<subseteq> nodeName ` set (nodeInfos cyclePipeline)"
    by (auto simp: connectionsOf_def example_defs)
  have e1: "(nodeName responseNode, ''B'') \<in> dependencyEdges cyclePipeline"
    and e2: "(''B'', ''A'') \<in> dependencyEdges cyclePipeline"
    and e3: "(''A'', ''B'') \<in> dependencyEdges cyclePipeline"
    by (auto simp: dependencyEdges_def connectionsOf_def example_defs image_iff)
  from e1 have r: "(nodeName responseNode, ''B'') \<in> (dependencyEdges cyclePipeline)\<^sup>*"
    by (rule r_into_rtrancl)
  from e2 e3 have c: "(''B'', ''B'') \<in> (dependencyEdges cyclePipeline)\<^sup>+"
    by (rule trancl_into_trancl2 [OF _ r_into_trancl])
  from r c have "\<exists>n. (nodeName responseNode, n) \<in> (dependencyEdges cyclePipeline)\<^sup>*
                    \<and> (n, n) \<in> (dependencyEdges cyclePipeline)\<^sup>+"
    by blast
  with validateForCycles_outcome [OF h1 h2 h3] have "validateForCycles cyclePipeline = PIPELINE_CYCLE_FOUND"
    by simp
  with h1 h2 c1 c2 c3 c4 r c show ?thesis by blast
qed

lemma orphan_no_dependency:
  "(''A'', n) \<in> (dependencyEdges orphanPipeline)\<^sup>* \<Longrightarrow> n = ''A''"
proof (erule converse_rtranclE)
  fix z assume "(''A'', z) \<in> dependencyEdges orphanPipeline"
  then show "n = ''A''"
    by (simp add: dependencyEdges_def connectionsOf_def orphanPipeline_def)
qed simp

theorem node_without_input_counterexample:
  "validateNodes (getModelInstance exampleManager) orphanPipeline = OK
   \<and> validateForCycles orphanPipeline = OK
   \<and> nodeA \<in> set (nodeInfos orphanPipeline)
   \<and> \<not> onEntryExitPath orphanPipeline (nodeName nodeA)"
proof -
  have "validateNodes (getModelInstance exampleManager) orphanPipeline = OK"
    by (simp add: validateNodes_def validateNode_def connectionsOf_def example_defs lookup_defs)
  moreover have "validateForCycles orphanPipeline = OK"
    by (simp add: validateForCycles_def cyclesLoop.simps connectionsOf_def example_defs)
  moreover have "nodeA \<in> set (nodeInfos orphanPipeline)"
    by (simp add: orphanPipeline_def)
  moreover have "\<not> onEntryExitPath orphanPipeline (nodeName nodeA)"
  proof
    assume "onEntryExitPath orphanPipeline (nodeName nodeA)"
    then obtain e where "e \<in> set (nodeInfos orphanPipeline)" "kind e = ENTRY"
      and "(nodeName nodeA, nodeName e) \<in> (dependencyEdges orphanPipeline)\<^sup>*"
      unfolding onEntryExitPath_def by blast
    moreover from this(1,2) have "nodeName e = ''request''"
      by (auto simp: orphanPipeline_def requestNode_def nodeA_def responseNode_def)
    ultimately have "(''A'', ''request'') \<in> (dependencyEdges orphanPipeline)\<^sup>*"
      by (simp add: nodeA_def)
    from orphan_no_dependency [OF this] show False by simp
  qed
  ultimately show ?thesis by blast
qed


end
